theory Spec2Isabelle
  imports Main "HOL-Library.AList"
begin

section \<open>Python values used by the preference store\<close>

text \<open>
  Text is a \<^typ>\<open>string\<close>: a list of 8-bit characters, read as the UTF-8 bytes of the
  Python \<open>str\<close>. The program only ever searches a lower-cased text for fixed ASCII
  needles, so \<open>str.lower()\<close> is modelled as far as the ASCII characters of its result
  go: the ASCII capitals become their small letters, the Kelvin sign (U+212A, bytes
  \<open>E2 84 AA\<close>) becomes \<open>k\<close>, and the capital I with dot above (U+0130, bytes
  \<open>C4 B0\<close>) becomes \<open>i\<close> followed by the combining dot (U+0307, bytes \<open>CC 87\<close>).
  These two are the only characters outside ASCII whose lower-case form holds an ASCII
  character; every other character outside ASCII becomes characters outside ASCII, which
  are part of no needle, and is left as it is here.
\<close>

definition ascii_uppercase :: string where
  "ascii_uppercase = ''ABCDEFGHIJKLMNOPQRSTUVWXYZ''"

definition ascii_lowercase :: string where
  "ascii_lowercase = ''abcdefghijklmnopqrstuvwxyz''"

definition lower_char :: "char \<Rightarrow> char" where
  "lower_char c =
     (case map_of (zip ascii_uppercase ascii_lowercase) c of Some l \<Rightarrow> l | None \<Rightarrow> c)"

definition KELVIN_SIGN :: string where
  "KELVIN_SIGN = [CHR 0xE2, CHR 0x84, CHR 0xAA]"

definition CAPITAL_I_WITH_DOT :: string where
  "CAPITAL_I_WITH_DOT = [CHR 0xC4, CHR 0xB0]"

definition COMBINING_DOT :: string where
  "COMBINING_DOT = [CHR 0xCC, CHR 0x87]"

text \<open>\<open>s.startswith(p)\<close>.\<close>

definition startswith :: "string \<Rightarrow> string \<Rightarrow> bool" where
  "startswith s p \<longleftrightarrow> take (length p) s = p"

text \<open>\<open>s.lower()\<close>.\<close>

fun lower :: "string \<Rightarrow> string" where
  "lower [] = []"
| "lower (c # cs) =
     (if startswith (c # cs) KELVIN_SIGN then CHR ''k'' # lower (drop 2 cs)
      else if startswith (c # cs) CAPITAL_I_WITH_DOT
      then CHR ''i'' # COMBINING_DOT @ lower (drop 1 cs)
      else lower_char c # lower cs)"

text \<open>\<open>needle in hay\<close> on strings: \<open>needle\<close> occurs in \<open>hay\<close> as a contiguous run.\<close>

fun str_in :: "string \<Rightarrow> string \<Rightarrow> bool" where
  "str_in needle [] \<longleftrightarrow> needle = []"
| "str_in needle (c # cs) \<longleftrightarrow> startswith (c # cs) needle \<or> str_in needle cs"

text \<open>\<open>any(word in text for word in words)\<close>.\<close>

definition any_in :: "string list \<Rightarrow> string \<Rightarrow> bool" where
  "any_in words hay \<longleftrightarrow> list_ex (\<lambda>word. str_in word hay) words"

text \<open>The decimal rendering of a non-negative \<open>int\<close> inside an f-string.\<close>

definition digit_char :: "nat \<Rightarrow> char" where
  "digit_char d = ''0123456789'' ! d"

fun str_nat :: "nat \<Rightarrow> string" where
  "str_nat n = (if n < 10 then [digit_char n] else str_nat (n div 10) @ [digit_char (n mod 10)])"

declare str_nat.simps [simp del]

text \<open>
  A \<open>dict\<close> of \<open>str\<close> to \<open>str\<close> keeps its entries in insertion order: an association
  list with distinct keys. \<open>d[k] = v\<close> replaces the value of an existing key in place and
  appends a new key; \<open>d.update(other)\<close> stores the entries of \<open>other\<close> in their order.
\<close>

type_synonym dict = "(string \<times> string) list"

definition dict_setitem :: "string \<Rightarrow> string \<Rightarrow> dict \<Rightarrow> dict" where
  "dict_setitem k v d = AList.update k v d"

definition dict_update :: "dict \<Rightarrow> dict \<Rightarrow> dict" where
  "dict_update d other = fold (\<lambda>(k, v). dict_setitem k v) other d"

definition dict_values :: "dict \<Rightarrow> string list" where
  "dict_values d = map snd d"

definition dict_keys :: "dict \<Rightarrow> string list" where
  "dict_keys d = map fst d"

definition dict_get :: "dict \<Rightarrow> string \<Rightarrow> string option" where
  "dict_get d k = map_of d k"

text \<open>
  The exception classes that the handlers of the program tell apart, with
  \<open>RuntimeError\<close> standing for any other subclass of \<open>Exception\<close>. \<open>except Exception\<close>
  catches every class but \<open>KeyboardInterrupt\<close>, which derives from \<open>BaseException\<close>
  only.
\<close>

datatype py_exception =
  JSONDecodeError | IOError | UnicodeDecodeError | AttributeError | TypeError
  | RuntimeError | KeyboardInterrupt

definition is_Exception :: "py_exception \<Rightarrow> bool" where
  "is_Exception e \<longleftrightarrow> e \<noteq> KeyboardInterrupt"

section \<open>The backing file\<close>

text \<open>
  The file at \<open>storage_path\<close>, as the program meets it: \<open>Absent\<close> when
  \<open>storage_path.exists()\<close> is false; otherwise \<open>Present r\<close>, where \<open>r\<close> is what
  \<open>open(storage_path, 'r')\<close> followed by \<open>json.load\<close> does: it returns the mapping the
  text denotes, or raises (a file that cannot be opened raises \<open>IOError\<close>, text that is
  not JSON raises \<open>JSONDecodeError\<close>, bytes that are not UTF-8 raise
  \<open>UnicodeDecodeError\<close>). The content of a well-formed file is the mapping itself: the
  program writes one JSON object of string members with \<open>json.dump\<close> and nothing else,
  and \<open>json.load\<close> reads back the members that \<open>json.dump\<close> wrote, in their order.
\<close>

datatype backing_file = Absent | Present "py_exception + dict"

text \<open>\<open>PreferenceManager._load_preferences_from_file\<close>.\<close>

definition load_preferences_from_file :: "backing_file \<Rightarrow> py_exception + dict" where
  "load_preferences_from_file f =
     (case f of
        Absent \<Rightarrow> Inr []
      | Present (Inr d) \<Rightarrow> Inr d
      | Present (Inl e) \<Rightarrow> if e = JSONDecodeError \<or> e = IOError then Inr [] else Inl e)"

text \<open>
  What the disk does with one attempt to write the file: the text is written whole; or
  \<open>open(storage_path, 'w')\<close> raises \<open>IOError\<close> and the file stays as it was; or the
  file is opened (and so truncated) and \<open>json.dump\<close> raises \<open>IOError\<close> part-way, leaving
  a proper prefix of a JSON object, which is not JSON.
\<close>

datatype write_result = Written | OpenRefused | WriteInterrupted

text \<open>\<open>PreferenceManager._save_preferences_to_file\<close>: an \<open>IOError\<close> is printed, not raised.\<close>

definition save_preferences_to_file :: "write_result \<Rightarrow> dict \<Rightarrow> backing_file \<Rightarrow> backing_file" where
  "save_preferences_to_file io prefs f =
     (case io of
        Written \<Rightarrow> Present (Inr prefs)
      | OpenRefused \<Rightarrow> f
      | WriteInterrupted \<Rightarrow> Present (Inl JSONDecodeError))"

section \<open>The remote memory service and the event loop\<close>

text \<open>
  One call of \<open>client.agent_engines.memories.generate\<close>: the two event texts and the scope
  it was given. The engine name and the \<open>config\<close> argument play no part in what follows.
\<close>

record generate_call =
  user_message :: string
  assistant_message :: string
  scope_user_id :: string

text \<open>
  Everything outside the manager object: the backing file, the calls the remote service
  has received so far, and the \<open>_save_to_memory_bank\<close> coroutines that
  \<open>asyncio.create_task\<close> has scheduled and the loop has not run yet, each with its two
  arguments.
\<close>

record world =
  backing_file :: backing_file
  generate_calls :: "generate_call list"
  pending_tasks :: "(string \<times> string) list"

record PreferenceManager =
  preferences :: dict
  use_vertex_ai :: bool
  memory_service :: bool
  preferences_loaded_from :: string
  user_id :: string

text \<open>
  \<open>memory_service\<close> holds whether the field is set (\<open>not None\<close>). A function that can
  let an exception escape returns it beside the state it leaves: \<open>None\<close> for a normal
  return.
\<close>

definition memory_call :: "string \<Rightarrow> string \<Rightarrow> generate_call" where
  "memory_call uid preference_value =
     \<lparr>user_message = ''Please remember this about my clothing preferences: '' @ preference_value,
      assistant_message = ''Got it! I'' @ [CHR 0x27] @ ''ll remember that you '' @ preference_value
        @ ''. I'' @ [CHR 0x27] @ ''ll use this when making outfit recommendations.'',
      scope_user_id = uid\<rparr>"

text \<open>
  What the remote side does when asked to store a fact: creating the client raises, or
  \<open>generate\<close> is called and raises, or it is called and returns.
\<close>

datatype remote_write = ClientFails py_exception | GenerateFails py_exception | GenerateOk

text \<open>\<open>PreferenceManager._save_to_memory_bank\<close>.\<close>

definition save_to_memory_bank ::
  "remote_write \<Rightarrow> PreferenceManager \<Rightarrow> string \<Rightarrow> string \<Rightarrow> world \<Rightarrow> py_exception option \<times> world" where
  "save_to_memory_bank r m preference_key preference_value w =
     (if \<not> use_vertex_ai m \<or> \<not> memory_service m then (None, w)
      else if str_in ''remember my clothing preferences'' (lower preference_value) then (None, w)
      else
        (let called = w\<lparr>generate_calls := generate_calls w @ [memory_call (user_id m) preference_value]\<rparr>
         in case r of
              ClientFails e \<Rightarrow> (if is_Exception e then None else Some e, w)
            | GenerateFails e \<Rightarrow> (if is_Exception e then None else Some e, called)
            | GenerateOk \<Rightarrow> (None, called)))"

text \<open>\<open>push_preference\<close> of \<open>scripts/push_preferences.py\<close>; nothing is caught there.\<close>

definition push_preference ::
  "py_exception option \<Rightarrow> string \<Rightarrow> string \<Rightarrow> world \<Rightarrow> py_exception option \<times> world" where
  "push_preference g uid preference_value w =
     (if str_in ''remember my clothing preferences'' (lower preference_value) then (None, w)
      else (g, w\<lparr>generate_calls := generate_calls w @ [memory_call uid preference_value]\<rparr>))"

section \<open>The preference manager\<close>

definition pref_key :: "nat \<Rightarrow> string" where
  "pref_key n = ''pref_'' @ str_nat n"

text \<open>
  What \<open>asyncio.get_event_loop()\<close> gives \<open>add_preference\<close>: a running loop, a loop that
  is not running, or no loop at all (\<open>RuntimeError\<close>).
\<close>

datatype loop_state = LoopRunning | LoopIdle | NoLoop

text \<open>\<open>PreferenceManager.add_preference\<close>.\<close>

definition add_preference ::
  "write_result \<Rightarrow> loop_state \<Rightarrow> remote_write \<Rightarrow> string \<Rightarrow> string \<Rightarrow>
     PreferenceManager \<times> world \<Rightarrow> py_exception option \<times> PreferenceManager \<times> world" where
  "add_preference io lp r key val mw =
     (let m = fst mw; w = snd mw;
          pref_id = (if startswith key ''pref_'' then pref_key (length (preferences m) + 1) else key);
          m1 = m\<lparr>preferences := dict_setitem pref_id val (preferences m)\<rparr>;
          w1 = w\<lparr>backing_file := save_preferences_to_file io (preferences m1) (backing_file w)\<rparr>
      in if use_vertex_ai m1 then
           (case lp of
              LoopRunning \<Rightarrow> (None, m1, w1\<lparr>pending_tasks := pending_tasks w1 @ [(pref_id, val)]\<rparr>)
            | LoopIdle \<Rightarrow> (case save_to_memory_bank r m1 pref_id val w1 of (x, w2) \<Rightarrow> (x, m1, w2))
            | NoLoop \<Rightarrow> (None, m1, w1))
         else (None, m1, w1))"

text \<open>The event loop runs the oldest scheduled \<open>_save_to_memory_bank\<close> coroutine.\<close>

definition run_task ::
  "remote_write \<Rightarrow> PreferenceManager \<times> world \<Rightarrow> py_exception option \<times> PreferenceManager \<times> world" where
  "run_task r mw =
     (let m = fst mw; w = snd mw
      in case pending_tasks w of
           [] \<Rightarrow> (None, m, w)
         | (k, v) # ts \<Rightarrow>
             (case save_to_memory_bank r m k v (w\<lparr>pending_tasks := ts\<rparr>) of (x, w1) \<Rightarrow> (x, m, w1)))"

text \<open>\<open>PreferenceManager.add_preference_async\<close>.\<close>

definition add_preference_async ::
  "write_result \<Rightarrow> remote_write \<Rightarrow> string \<Rightarrow> string \<Rightarrow>
     PreferenceManager \<times> world \<Rightarrow> py_exception option \<times> PreferenceManager \<times> world" where
  "add_preference_async io r key val mw =
     (let m = fst mw; w = snd mw;
          pref_id = (if startswith key ''pref_'' then pref_key (length (preferences m) + 1) else key);
          m1 = m\<lparr>preferences := dict_setitem pref_id val (preferences m)\<rparr>;
          w1 = w\<lparr>backing_file := save_preferences_to_file io (preferences m1) (backing_file w)\<rparr>
      in if use_vertex_ai m1 then
           (case save_to_memory_bank r m1 pref_id val w1 of (x, w2) \<Rightarrow> (x, m1, w2))
         else (None, m1, w1))"

text \<open>\<open>get_preference_list\<close> and \<open>get_preference_source\<close>.\<close>

definition get_preference_list :: "PreferenceManager \<Rightarrow> string list" where
  "get_preference_list m = dict_values (preferences m)"

definition get_preference_source :: "PreferenceManager \<Rightarrow> string" where
  "get_preference_source m = preferences_loaded_from m"

text \<open>\<open>PreferenceManager.clear_preferences\<close>.\<close>

definition clear_preferences :: "write_result \<Rightarrow> PreferenceManager \<times> world \<Rightarrow> PreferenceManager \<times> world" where
  "clear_preferences io mw =
     (let m1 = (fst mw)\<lparr>preferences := []\<rparr>
      in (m1, (snd mw)\<lparr>backing_file := save_preferences_to_file io (preferences m1) (backing_file (snd mw))\<rparr>))"

section \<open>Loading from the remote memory\<close>

text \<open>
  One element of \<open>search_results\<close>, as the loop body meets it: \<open>Memory (Some t)\<close> has a
  \<open>fact\<close> that is the text \<open>t\<close>, \<open>Memory None\<close> has the fact \<open>None\<close>, and
  \<open>Unreadable e\<close> raises \<open>e\<close> inside the body (a missing attribute, or a fact that is
  no text and has no \<open>lower\<close>, raise \<open>AttributeError\<close>).
\<close>

datatype search_result = Memory "string option" | Unreadable py_exception

text \<open>
  What the retrieval does: creating the client or calling \<open>retrieve\<close> raises; or it
  returns an iterable that yields the listed results and then ends, or raises instead
  of ending.
\<close>

datatype retrieve_outcome =
  RetrieveRaises py_exception | Retrieved "search_result list" "py_exception option"

text \<open>The test on a fact in \<open>load_from_memory_bank\<close>.\<close>

definition looks_like_preference :: "string \<Rightarrow> bool" where
  "looks_like_preference fact_text \<longleftrightarrow>
     fact_text \<noteq> [] \<and>
     (str_in ''prefer'' (lower fact_text) \<or> str_in ''style'' (lower fact_text)
      \<or> str_in ''casual'' (lower fact_text) \<or> str_in ''formal'' (lower fact_text))"

text \<open>
  The \<open>for\<close> loop of \<open>load_from_memory_bank\<close> over the results that were yielded, with
  \<open>loaded_prefs\<close> as accumulator: \<open>AttributeError\<close> and \<open>TypeError\<close> skip a result, any
  other exception leaves the loop.
\<close>

fun extract_preferences :: "search_result list \<Rightarrow> dict \<Rightarrow> py_exception + dict" where
  "extract_preferences [] loaded_prefs = Inr loaded_prefs"
| "extract_preferences (Memory None # rs) loaded_prefs = extract_preferences rs loaded_prefs"
| "extract_preferences (Memory (Some fact_text) # rs) loaded_prefs =
     (if looks_like_preference fact_text
      then extract_preferences rs
             (dict_setitem (pref_key (length loaded_prefs + 1)) fact_text loaded_prefs)
      else extract_preferences rs loaded_prefs)"
| "extract_preferences (Unreadable e # rs) loaded_prefs =
     (if e = AttributeError \<or> e = TypeError then extract_preferences rs loaded_prefs else Inl e)"

text \<open>The body of the outer \<open>try\<close> up to the end of the loop.\<close>

definition retrieve_preferences :: "retrieve_outcome \<Rightarrow> py_exception + dict" where
  "retrieve_preferences rt =
     (case rt of
        RetrieveRaises e \<Rightarrow> Inl e
      | Retrieved rs tail \<Rightarrow>
          (case extract_preferences rs [] of
             Inl e \<Rightarrow> Inl e
           | Inr loaded_prefs \<Rightarrow> (case tail of Some e \<Rightarrow> Inl e | None \<Rightarrow> Inr loaded_prefs)))"

text \<open>
  \<open>PreferenceManager.load_from_memory_bank\<close>: the first component is the mapping it
  returns, or the exception that escapes.
\<close>

definition load_from_memory_bank ::
  "retrieve_outcome \<Rightarrow> write_result \<Rightarrow> PreferenceManager \<times> world \<Rightarrow>
     (py_exception + dict) \<times> PreferenceManager \<times> world" where
  "load_from_memory_bank rt io mw =
     (let m = fst mw; w = snd mw
      in if \<not> use_vertex_ai m \<or> \<not> memory_service m then (Inr [], m, w)
         else
           (case retrieve_preferences rt of
              Inr loaded_prefs \<Rightarrow>
                (if loaded_prefs \<noteq> [] then
                   (let m1 = m\<lparr>preferences := dict_update (preferences m) loaded_prefs\<rparr>
                    in (Inr loaded_prefs, m1,
                        w\<lparr>backing_file := save_preferences_to_file io (preferences m1) (backing_file w)\<rparr>))
                 else (Inr loaded_prefs, m, w))
            | Inl e \<Rightarrow> (if is_Exception e then Inr [] else Inl e, m, w)))"

text \<open>\<open>PreferenceManager.initialize_memory_bank\<close>, the sync of the specification.\<close>

definition initialize_memory_bank ::
  "retrieve_outcome \<Rightarrow> write_result \<Rightarrow> PreferenceManager \<times> world \<Rightarrow>
     py_exception option \<times> PreferenceManager \<times> world" where
  "initialize_memory_bank rt io mw =
     (let m = fst mw; w = snd mw
      in if \<not> use_vertex_ai m \<or> \<not> memory_service m then (None, m, w)
         else
           (case load_from_memory_bank rt io mw of
              (Inr loaded_prefs, m1, w1) \<Rightarrow>
                (None,
                 m1\<lparr>preferences_loaded_from :=
                      (if loaded_prefs \<noteq> [] then ''vertex_ai_memory_bank'' else ''local_file'')\<rparr>,
                 w1)
            | (Inl e, m1, w1) \<Rightarrow>
                (if is_Exception e then (None, m1\<lparr>preferences_loaded_from := ''local_file''\<rparr>, w1)
                 else (Some e, m1, w1))))"

text \<open>
  \<open>PreferenceManager.__init__\<close>. Its inputs beside the world: the \<open>use_vertex_ai\<close>
  argument, the module flag \<open>VERTEX_AI_AVAILABLE\<close>, whether project, location and engine
  id are all given, what creating the parent directory and the memory service raise, if
  anything, and the user id.
\<close>

definition init ::
  "bool \<Rightarrow> bool \<Rightarrow> bool \<Rightarrow> py_exception option \<Rightarrow> py_exception option \<Rightarrow> string \<Rightarrow> world \<Rightarrow>
     py_exception + PreferenceManager" where
  "init use_vertex_ai_arg VERTEX_AI_AVAILABLE credentials mkdir service uid w =
     (case mkdir of
        Some e \<Rightarrow> Inl e
      | None \<Rightarrow>
          (case load_preferences_from_file (backing_file w) of
             Inl e \<Rightarrow> Inl e
           | Inr d \<Rightarrow>
               (let m = \<lparr>preferences = d, use_vertex_ai = use_vertex_ai_arg \<and> VERTEX_AI_AVAILABLE,
                         memory_service = False, preferences_loaded_from = ''local_file'',
                         user_id = uid\<rparr>
                in if use_vertex_ai m then
                     (if \<not> credentials then Inr (m\<lparr>use_vertex_ai := False\<rparr>)
                      else
                        (case service of
                           None \<Rightarrow> Inr (m\<lparr>memory_service := True\<rparr>)
                         | Some e \<Rightarrow> if is_Exception e then Inr (m\<lparr>use_vertex_ai := False\<rparr>) else Inl e))
                   else Inr m)))"

section \<open>Runs of the system\<close>

text \<open>
  Everything that can happen to a manager and its world, with what the environment does
  at that moment: the two ways of adding, the loop running a scheduled task, the direct
  call of \<open>_save_to_memory_bank\<close> made by \<open>scripts/resync_preferences.py\<close>, one
  \<open>push_preference\<close> of \<open>scripts/push_preferences.py\<close>, a sync and a clear. An exception
  that escapes an action is not the world's concern: the run goes on from the state the
  action left.
\<close>

datatype action =
  AddPreference write_result loop_state remote_write string string
  | AddPreferenceAsync write_result remote_write string string
  | RunTask remote_write
  | SaveToMemoryBank remote_write string string
  | PushPreference "py_exception option" string string
  | InitializeMemoryBank retrieve_outcome write_result
  | ClearPreferences write_result

fun exec :: "action \<Rightarrow> PreferenceManager \<times> world \<Rightarrow> PreferenceManager \<times> world" where
  "exec (AddPreference io lp r key val) mw = snd (add_preference io lp r key val mw)"
| "exec (AddPreferenceAsync io r key val) mw = snd (add_preference_async io r key val mw)"
| "exec (RunTask r) mw = snd (run_task r mw)"
| "exec (SaveToMemoryBank r key val) mw = (fst mw, snd (save_to_memory_bank r (fst mw) key val (snd mw)))"
| "exec (PushPreference g uid val) mw = (fst mw, snd (push_preference g uid val (snd mw)))"
| "exec (InitializeMemoryBank rt io) mw = snd (initialize_memory_bank rt io mw)"
| "exec (ClearPreferences io) mw = clear_preferences io mw"

definition run :: "action list \<Rightarrow> PreferenceManager \<times> world \<Rightarrow> PreferenceManager \<times> world" where
  "run acts mw = fold exec acts mw"

section \<open>Activity classification\<close>

text \<open>
  A value of an event dictionary: a text, or \<open>None\<close>. A calendar event has the keys
  \<open>summary\<close>, \<open>location\<close> and \<open>start\<close>; a field is \<open>None\<close> here when its key is
  missing, \<open>Some PyNone\<close> when the key is there with the value \<open>None\<close>.
\<close>

datatype py_text = Str string | PyNone

record event =
  summary :: "py_text option"
  location :: "py_text option"
  start :: "py_text option"

record activity =
  title :: py_text
  start_time :: py_text
  raw_location :: py_text
  location_type :: string
  formality :: string
  is_exercise :: bool
  is_outdoor :: bool

text \<open>\<open>event.get(key, default)\<close>.\<close>

definition event_get :: "'a option \<Rightarrow> 'a \<Rightarrow> 'a" where
  "event_get field dflt = (case field of None \<Rightarrow> dflt | Some v \<Rightarrow> v)"

text \<open>\<open>v.lower()\<close> on a value of an event: \<open>None\<close> has no \<open>lower\<close>.\<close>

definition value_lower :: "py_text \<Rightarrow> py_exception + string" where
  "value_lower v = (case v of Str s \<Rightarrow> Inr (lower s) | PyNone \<Rightarrow> Inl AttributeError)"

text \<open>\<open>ActivityDetector.analyze_event\<close>.\<close>

definition analyze_event :: "event \<Rightarrow> py_exception + activity" where
  "analyze_event ev =
     (case value_lower (event_get (summary ev) (Str '''')) of
        Inl e \<Rightarrow> Inl e
      | Inr summary_l \<Rightarrow>
          (case value_lower (event_get (location ev) (Str '''')) of
             Inl e \<Rightarrow> Inl e
           | Inr location_l \<Rightarrow>
               (let loc_type =
                      (if any_in [''park'', ''outdoor'', ''trail'', ''beach''] location_l
                       then ''outdoor''
                       else if any_in [''office'', ''workplace''] location_l then ''office''
                       else if any_in [''home'', ''house''] location_l then ''home''
                       else ''indoor'');
                    form =
                      (if any_in [''meeting'', ''presentation'', ''interview'', ''client'']
                            summary_l
                       then ''formal''
                       else if any_in [''work'', ''office'', ''business''] summary_l
                       then ''business_casual''
                       else ''casual'');
                    exercise =
                      any_in [''gym'', ''workout'', ''run'', ''exercise'', ''yoga'', ''fitness'']
                        summary_l;
                    outdoor =
                      (loc_type = ''outdoor''
                       \<or> any_in [''outdoor'', ''outside'', ''park'', ''hike''] summary_l)
                in Inr \<lparr>title = event_get (summary ev) (Str ''Event''),
                        start_time = event_get (start ev) (Str ''''),
                        raw_location = event_get (location ev) (Str ''''),
                        location_type = loc_type,
                        formality = form,
                        is_exercise = exercise,
                        is_outdoor = outdoor\<rparr>)))"

section \<open>Object identity\<close>

text \<open>
  The sections above treat a mapping as its content. Which object a mapping is matters
  for \<open>get_all_preferences\<close> alone, so it is modelled here with an explicit store: the
  \<open>dict\<close> objects allocated so far, addressed by their position, beside the backing
  file. \<open>self.preferences\<close> is an address in that store. The values of a mapping are
  \<open>str\<close> objects, which cannot be mutated, so an object is given by its entries.
\<close>

type_synonym address = nat

record py_state =
  dict_objects :: "dict list"
  disk :: backing_file

text \<open>\<open>d.copy()\<close>: a new object with the entries of the object at \<open>a\<close>.\<close>

definition dict_copy :: "address \<Rightarrow> py_state \<Rightarrow> address \<times> py_state" where
  "dict_copy a s =
     (length (dict_objects s), s\<lparr>dict_objects := dict_objects s @ [dict_objects s ! a]\<rparr>)"

text \<open>\<open>PreferenceManager.get_all_preferences\<close>, given the address in \<open>self.preferences\<close>.\<close>

definition get_all_preferences :: "address \<Rightarrow> py_state \<Rightarrow> address \<times> py_state" where
  "get_all_preferences self_preferences s = dict_copy self_preferences s"

text \<open>\<open>get_preference_list\<close> read through the address in \<open>self.preferences\<close>.\<close>

definition get_preference_list_at :: "address \<Rightarrow> py_state \<Rightarrow> string list" where
  "get_preference_list_at self_preferences s = dict_values (dict_objects s ! self_preferences)"

text \<open>
  What a caller can do to a mapping it holds: \<open>d[k] = v\<close>, \<open>del d[k]\<close> (or \<open>pop\<close>),
  \<open>d.clear()\<close> and \<open>d.update(other)\<close>.
\<close>

datatype mutation = SetItem string string | DelItem string | Clear | Update dict

fun mutate :: "mutation \<Rightarrow> dict \<Rightarrow> dict" where
  "mutate (SetItem k v) d = dict_setitem k v d"
| "mutate (DelItem k) d = AList.delete k d"
| "mutate Clear d = []"
| "mutate (Update other) d = dict_update d other"

definition mutate_at :: "address \<Rightarrow> mutation \<Rightarrow> py_state \<Rightarrow> py_state" where
  "mutate_at a mu s =
     (if a < length (dict_objects s)
      then s\<lparr>dict_objects := (dict_objects s)[a := mutate mu (dict_objects s ! a)]\<rparr>
      else s)"

section \<open>Notions of the specification\<close>

text \<open>
  A text contains a phrase in any letter case when some run of the text, as long as the
  phrase, equals the phrase once the ASCII capitals of both are made small letters.
\<close>

definition ascii_lower :: "string \<Rightarrow> string" where
  "ascii_lower s = map lower_char s"

fun occurs_ignoring_case :: "string \<Rightarrow> string \<Rightarrow> bool" where
  "occurs_ignoring_case phrase [] \<longleftrightarrow> phrase = []"
| "occurs_ignoring_case phrase (c # cs) \<longleftrightarrow>
     ascii_lower (take (length phrase) (c # cs)) = ascii_lower phrase
     \<or> occurs_ignoring_case phrase cs"

text \<open>A word of small ASCII letters and spaces.\<close>

definition small_letters :: "string \<Rightarrow> bool" where
  "small_letters kw \<longleftrightarrow> list_all (\<lambda>c. c \<in> set (ascii_lowercase @ '' '')) kw"

text \<open>
  The case-insensitive substring test of the activity classification: the keyword is a
  run of the lower-cased text, starting at some position.
\<close>

definition keyword_occurs :: "string \<Rightarrow> string \<Rightarrow> bool" where
  "keyword_occurs kw s \<longleftrightarrow>
     list_ex (\<lambda>i. take (length kw) (drop i (lower s)) = kw) [0..<length (lower s) + 1]"

text \<open>The keywords of the activity classification.\<close>

definition activity_keywords :: "string list" where
  "activity_keywords =
     [''park'', ''outdoor'', ''trail'', ''beach'', ''office'', ''workplace'', ''home'', ''house'',
      ''meeting'', ''presentation'', ''interview'', ''client'', ''work'', ''business'',
      ''gym'', ''workout'', ''run'', ''exercise'', ''yoga'', ''fitness'', ''outside'', ''hike'']"

text \<open>The text of a field of an event: empty when the key is missing.\<close>

definition field_text :: "py_text option \<Rightarrow> string" where
  "field_text field = (case field of Some (Str s) \<Rightarrow> s | Some PyNone \<Rightarrow> [] | None \<Rightarrow> [])"

text \<open>The keyword set of the fact extractor.\<close>

definition mentions_keyword :: "string \<Rightarrow> bool" where
  "mentions_keyword fact_text \<longleftrightarrow>
     list_ex (\<lambda>kw. occurs_ignoring_case kw fact_text)
       [''prefer'', ''style'', ''casual'', ''formal'']"

text \<open>The facts of a retrieval that mention a keyword, in retrieval order.\<close>

fun accepted_facts :: "search_result list \<Rightarrow> string list" where
  "accepted_facts [] = []"
| "accepted_facts (Memory (Some fact_text) # rs) =
     (if mentions_keyword fact_text then fact_text # accepted_facts rs else accepted_facts rs)"
| "accepted_facts (Memory None # rs) = accepted_facts rs"
| "accepted_facts (Unreadable e # rs) = accepted_facts rs"

text \<open>
  The results of a retrieval can all be read or skipped: none raises, inside the loop
  body, anything but \<open>AttributeError\<close> or \<open>TypeError\<close>.
\<close>

definition readable_or_skipped :: "search_result list \<Rightarrow> bool" where
  "readable_or_skipped rs \<longleftrightarrow>
     list_all (\<lambda>r. case r of Memory fact_text \<Rightarrow> True
                       | Unreadable e \<Rightarrow> e = AttributeError \<or> e = TypeError) rs"

text \<open>The mapping that gives the \<open>i\<close>-th of some facts the key \<open>pref_i\<close>, counting from one.\<close>

definition numbered :: "string list \<Rightarrow> dict" where
  "numbered facts = map (\<lambda>i. (pref_key (i + 1), facts ! i)) [0..<length facts]"

text \<open>
  Keyword rules of which the first that matches wins: each rule is a list of keywords
  and the label it gives; a rule matches a text in which one of its keywords occurs.
\<close>

fun first_rule :: "(string list \<times> string) list \<Rightarrow> string \<Rightarrow> string \<Rightarrow> string" where
  "first_rule [] dflt s = dflt"
| "first_rule ((kws, label) # rules) dflt s =
     (if list_ex (\<lambda>kw. keyword_occurs kw s) kws then label
      else first_rule rules dflt s)"

text \<open>\<open>save(load())\<close>: what was loaded is saved again; nothing is saved if loading raises.\<close>

definition resave :: "write_result \<Rightarrow> backing_file \<Rightarrow> backing_file" where
  "resave io f =
     (case load_preferences_from_file f of
        Inr d \<Rightarrow> save_preferences_to_file io d f
      | Inl e \<Rightarrow> f)"

text \<open>
  The keys of a store are distinct, and a key \<open>pref_n\<close> in it has \<open>n\<close> at most the
  number of entries.
\<close>

definition auto_keys_bounded :: "dict \<Rightarrow> bool" where
  "auto_keys_bounded d \<longleftrightarrow>
     distinct (dict_keys d) \<and> (\<forall>n. pref_key n \<in> set (dict_keys d) \<longrightarrow> n \<le> length d)"

section \<open>A manager and a world to evaluate on\<close>

definition example_manager :: PreferenceManager where
  "example_manager =
     \<lparr>preferences = [(''style'', ''casual'')], use_vertex_ai = True, memory_service = True,
      preferences_loaded_from = ''local_file'', user_id = ''default_user''\<rparr>"

definition example_world :: world where
  "example_world =
     \<lparr>backing_file = Present (Inr [(''style'', ''casual'')]), generate_calls = [],
      pending_tasks = []\<rparr>"

text \<open>
  The world in which the backing file holds a given mapping and nothing has been sent or
  scheduled, and the manager that the constructor builds in it without the remote memory.
\<close>

definition file_world :: "dict \<Rightarrow> world" where
  "file_world d = \<lparr>backing_file = Present (Inr d), generate_calls = [], pending_tasks = []\<rparr>"

definition local_manager :: "dict \<Rightarrow> PreferenceManager" where
  "local_manager d =
     \<lparr>preferences = d, use_vertex_ai = False, memory_service = False,
      preferences_loaded_from = ''local_file'', user_id = ''default_user''\<rparr>"

section \<open>Facts about texts, keys and mappings\<close>

lemma startswith_KELVIN:
  "startswith (c # cs) KELVIN_SIGN \<longleftrightarrow> c = CHR 0xE2 \<and> (\<exists>r. cs = CHR 0x84 # CHR 0xAA # r)"
  unfolding startswith_def KELVIN_SIGN_def
  by (cases cs; cases "tl cs") auto

lemma startswith_I_WITH_DOT:
  "startswith (c # cs) CAPITAL_I_WITH_DOT \<longleftrightarrow> c = CHR 0xC4 \<and> (\<exists>r. cs = CHR 0xB0 # r)"
  by (cases cs) (auto simp: startswith_def CAPITAL_I_WITH_DOT_def)

lemma lower_plain_char:
  "c \<noteq> CHR 0xE2 \<Longrightarrow> c \<noteq> CHR 0xC4 \<Longrightarrow> lower (c # cs) = lower_char c # lower cs"
  by (simp add: startswith_KELVIN startswith_I_WITH_DOT)

lemma lower_append:
  "s = [] \<or> hd s \<notin> {CHR 0x84, CHR 0xAA, CHR 0xB0} \<Longrightarrow> lower (pre @ s) = lower pre @ lower s"
proof (induction pre rule: lower.induct)
  case 1
  show ?case by simp
next
  case (2 c cs)
  show ?case
  proof (cases "startswith (c # cs) KELVIN_SIGN")
    case True
    then obtain r where r: "c = CHR 0xE2" "cs = CHR 0x84 # CHR 0xAA # r"
      by (auto simp: startswith_KELVIN)
    with 2 True show ?thesis by (simp add: startswith_KELVIN)
  next
    case False
    note nk = this
    show ?thesis
    proof (cases "startswith (c # cs) CAPITAL_I_WITH_DOT")
      case True
      then obtain r where r: "c = CHR 0xC4" "cs = CHR 0xB0 # r"
        by (auto simp: startswith_I_WITH_DOT)
      with 2 nk True show ?thesis by (simp add: startswith_KELVIN startswith_I_WITH_DOT)
    next
      case False
      from nk "2.prems" have nk': "\<not> startswith (c # cs @ s) KELVIN_SIGN"
        by (cases cs; cases "tl cs"; cases s) (auto simp: startswith_KELVIN)
      from False "2.prems" have ni': "\<not> startswith (c # cs @ s) CAPITAL_I_WITH_DOT"
        by (cases cs; cases s) (auto simp: startswith_I_WITH_DOT)
      from nk False nk' ni' "2.IH"(3) [OF nk False "2.prems"] show ?thesis by simp
    qed
  qed
qed

lemma startswith_iff: "startswith s p \<longleftrightarrow> (\<exists>post. s = p @ post)"
  unfolding startswith_def
proof
  assume "take (length p) s = p"
  then have "s = p @ drop (length p) s" by (metis append_take_drop_id)
  then show "\<exists>post. s = p @ post" ..
next
  assume "\<exists>post. s = p @ post"
  then show "take (length p) s = p" by auto
qed

lemma str_in_iff: "str_in needle hay \<longleftrightarrow> (\<exists>pre post. hay = pre @ needle @ post)"
proof (induction hay)
  case Nil
  show ?case by auto
next
  case (Cons c cs)
  show ?case
  proof
    assume "str_in needle (c # cs)"
    then consider "startswith (c # cs) needle" | "str_in needle cs" by auto
    then show "\<exists>pre post. c # cs = pre @ needle @ post"
    proof cases
      case 1
      then obtain post where "c # cs = needle @ post" by (auto simp: startswith_iff)
      then have "c # cs = [] @ needle @ post" by simp
      then show ?thesis by blast
    next
      case 2
      then obtain pre post where "cs = pre @ needle @ post" using Cons.IH by blast
      then have "c # cs = (c # pre) @ needle @ post" by simp
      then show ?thesis by blast
    qed
  next
    assume "\<exists>pre post. c # cs = pre @ needle @ post"
    then obtain pre post where eq: "c # cs = pre @ needle @ post" by blast
    show "str_in needle (c # cs)"
    proof (cases pre)
      case Nil
      with eq have "startswith (c # cs) needle" by (auto simp: startswith_iff)
      then show ?thesis by simp
    next
      case (Cons p ps)
      with eq have "cs = ps @ needle @ post" by simp
      then have "str_in needle cs" using Cons.IH by blast
      then show ?thesis by simp
    qed
  qed
qed

lemma length_ascii_lower: "length (ascii_lower a) = length a"
  by (simp add: ascii_lower_def)

lemma ascii_lower_append: "ascii_lower (a @ b) = ascii_lower a @ ascii_lower b"
  by (simp add: ascii_lower_def)

lemma occurs_ignoring_case_iff:
  "occurs_ignoring_case phrase s \<longleftrightarrow>
     (\<exists>pre mid post. s = pre @ mid @ post \<and> ascii_lower mid = ascii_lower phrase)"
proof (induction s)
  case Nil
  show ?case by (auto simp: ascii_lower_def)
next
  case (Cons c cs)
  show ?case
  proof
    assume "occurs_ignoring_case phrase (c # cs)"
    then consider "ascii_lower (take (length phrase) (c # cs)) = ascii_lower phrase"
      | "occurs_ignoring_case phrase cs" by auto
    then show "\<exists>pre mid post. c # cs = pre @ mid @ post \<and> ascii_lower mid = ascii_lower phrase"
    proof cases
      case 1
      have "c # cs = [] @ take (length phrase) (c # cs) @ drop (length phrase) (c # cs)"
        by simp
      with 1 show ?thesis by blast
    next
      case 2
      then obtain pre mid post where "cs = pre @ mid @ post" "ascii_lower mid = ascii_lower phrase"
        using Cons.IH by blast
      then have "c # cs = (c # pre) @ mid @ post \<and> ascii_lower mid = ascii_lower phrase" by simp
      then show ?thesis by blast
    qed
  next
    assume "\<exists>pre mid post. c # cs = pre @ mid @ post \<and> ascii_lower mid = ascii_lower phrase"
    then obtain pre mid post where eq: "c # cs = pre @ mid @ post" and lo: "ascii_lower mid = ascii_lower phrase"
      by blast
    from lo have len: "length mid = length phrase" by (metis length_ascii_lower)
    show "occurs_ignoring_case phrase (c # cs)"
    proof (cases pre)
      case Nil
      with eq len have "take (length phrase) (c # cs) = mid" by simp
      with lo show ?thesis by simp
    next
      case (Cons p ps)
      with eq have "cs = ps @ mid @ post" by simp
      with lo have "occurs_ignoring_case phrase cs" using Cons.IH by blast
      then show ?thesis by simp
    qed
  qed
qed

lemma str_in_ascii_lower_iff:
  "str_in (ascii_lower phrase) (ascii_lower s) \<longleftrightarrow> occurs_ignoring_case phrase s"
proof
  assume "str_in (ascii_lower phrase) (ascii_lower s)"
  then obtain a b where ab: "ascii_lower s = a @ ascii_lower phrase @ b" by (auto simp: str_in_iff)
  define pre where "pre = take (length a) s"
  define mid where "mid = take (length phrase) (drop (length a) s)"
  define post where "post = drop (length phrase) (drop (length a) s)"
  have t: "s = pre @ mid @ post"
    unfolding pre_def mid_def post_def by (metis append_take_drop_id)
  from ab have "map lower_char s = a @ map lower_char phrase @ b" by (simp add: ascii_lower_def)
  then have "take (length phrase) (drop (length a) (map lower_char s)) = map lower_char phrase"
    by simp
  then have "ascii_lower mid = ascii_lower phrase"
    by (simp add: mid_def ascii_lower_def take_map drop_map)
  with t show "occurs_ignoring_case phrase s" unfolding occurs_ignoring_case_iff by blast
next
  assume "occurs_ignoring_case phrase s"
  then obtain pre mid post where "s = pre @ mid @ post" "ascii_lower mid = ascii_lower phrase"
    unfolding occurs_ignoring_case_iff by blast
  then have "ascii_lower s = ascii_lower pre @ ascii_lower phrase @ ascii_lower post" by (simp add: ascii_lower_append)
  then show "str_in (ascii_lower phrase) (ascii_lower s)" unfolding str_in_iff by blast
qed


lemma occurs_ignoring_case_drop:
  "occurs_ignoring_case kw (drop n s) \<Longrightarrow> occurs_ignoring_case kw s"
proof (induction s arbitrary: n)
  case Nil
  then show ?case by simp
next
  case (Cons c cs)
  show ?case
  proof (cases n)
    case 0
    with Cons.prems show ?thesis by simp
  next
    case (Suc k)
    with Cons.prems Cons.IH [of k] show ?thesis by simp
  qed
qed

lemma lower_char_fixed: "c \<notin> set ascii_uppercase \<Longrightarrow> lower_char c = c"
proof -
  assume "c \<notin> set ascii_uppercase"
  then have "map_of (zip ascii_uppercase ascii_lowercase) c = None"
    by (auto simp: map_of_eq_None_iff dest: set_zip_leftD)
  then show ?thesis by (simp add: lower_char_def)
qed

lemma small_letter_not_capital:
  "c \<in> set (ascii_lowercase @ '' '') \<Longrightarrow> c \<notin> set ascii_uppercase"
  unfolding ascii_lowercase_def ascii_uppercase_def by auto

lemma small_letters_fixed: "small_letters kw \<Longrightarrow> ascii_lower kw = kw"
  unfolding small_letters_def ascii_lower_def list_all_iff
  by (intro map_idI lower_char_fixed small_letter_not_capital) blast

lemma lower_char_small:
  assumes "lower_char m \<in> set (ascii_lowercase @ '' '')"
  shows "m \<notin> {CHR 0xE2, CHR 0xC4, CHR 0x84, CHR 0xAA, CHR 0xB0}"
proof
  assume m: "m \<in> {CHR 0xE2, CHR 0xC4, CHR 0x84, CHR 0xAA, CHR 0xB0}"
  then have "m \<notin> set ascii_uppercase" unfolding ascii_uppercase_def by auto
  then have "lower_char m = m" by (rule lower_char_fixed)
  moreover from m have "m \<notin> set (ascii_lowercase @ '' '')"
    unfolding ascii_lowercase_def by auto
  ultimately show False using assms by simp
qed

lemma lower_plain_run:
  "\<forall>m \<in> set mid. m \<noteq> CHR 0xE2 \<and> m \<noteq> CHR 0xC4 \<Longrightarrow> lower (mid @ post) = ascii_lower mid @ lower post"
  by (induction mid) (simp_all add: lower_plain_char ascii_lower_def del: lower.simps)

lemma occurs_imp_str_in_lower:
  assumes "small_letters kw" and "occurs_ignoring_case kw t"
  shows "str_in kw (lower t)"
proof -
  from assms(1) have fixed: "ascii_lower kw = kw" by (rule small_letters_fixed)
  from assms(2) fixed obtain pre mid post where t: "t = pre @ mid @ post" and mid: "ascii_lower mid = kw"
    unfolding occurs_ignoring_case_iff by auto
  have safe: "m \<notin> {CHR 0xE2, CHR 0xC4, CHR 0x84, CHR 0xAA, CHR 0xB0}" if "m \<in> set mid" for m
  proof -
    from that mid have "lower_char m \<in> set kw" by (auto simp: ascii_lower_def)
    with assms(1) have "lower_char m \<in> set (ascii_lowercase @ '' '')"
      unfolding small_letters_def list_all_iff by blast
    then show ?thesis by (rule lower_char_small)
  qed
  show ?thesis
  proof (cases mid)
    case Nil
    with mid have "kw = []" by (simp add: ascii_lower_def)
    then show ?thesis by (cases "lower t") (simp_all add: startswith_def)
  next
    case (Cons m ms)
    with safe have "hd (mid @ post) \<notin> {CHR 0x84, CHR 0xAA, CHR 0xB0}" by auto
    then have "lower t = lower pre @ lower (mid @ post)"
      unfolding t by (intro lower_append) simp
    also have "lower (mid @ post) = ascii_lower mid @ lower post"
      using safe by (intro lower_plain_run) auto
    finally have "lower t = lower pre @ kw @ lower post" using mid by simp
    then show ?thesis unfolding str_in_iff by blast
  qed
qed

lemma startswith_Cons:
  "startswith (x # xs) (c # kw) \<longleftrightarrow> x = c \<and> startswith xs kw"
  by (auto simp: startswith_def)

lemma startswith_Nil [simp]: "startswith s []"
  by (simp add: startswith_def)

lemma startswith_lower_window:
  "CHR ''k'' \<notin> set kw \<Longrightarrow> CHR ''i'' \<notin> set kw \<Longrightarrow> startswith (lower t) kw \<Longrightarrow>
   ascii_lower (take (length kw) t) = kw"
proof (induction kw arbitrary: t)
  case Nil
  show ?case by (simp add: ascii_lower_def)
next
  case (Cons c kw)
  from Cons.prems(3) obtain x xs where t: "t = x # xs"
    by (cases t) (auto simp: startswith_def)
  show ?case
  proof (cases "startswith (x # xs) KELVIN_SIGN")
    case True
    with Cons.prems t show ?thesis by (auto simp: startswith_Cons)
  next
    case nk: False
    show ?thesis
    proof (cases "startswith (x # xs) CAPITAL_I_WITH_DOT")
      case True
      with nk Cons.prems t show ?thesis by (auto simp: startswith_Cons)
    next
      case False
      with nk Cons.prems(3) t have c: "lower_char x = c" and rest: "startswith (lower xs) kw"
        by (simp_all add: startswith_Cons)
      from Cons.prems(1,2) rest have "ascii_lower (take (length kw) xs) = kw"
        by (intro Cons.IH) auto
      with c t show ?thesis by (simp add: ascii_lower_def)
    qed
  qed
qed

lemma str_in_lower_imp_occurs:
  assumes "small_letters kw" and "CHR ''k'' \<notin> set kw" and "CHR ''i'' \<notin> set kw"
  shows "str_in kw (lower t) \<Longrightarrow> occurs_ignoring_case kw t"
proof (induction t rule: lower.induct)
  case 1
  then show ?case by simp
next
  case (2 c cs)
  have head: "kw = [] \<or> hd kw \<in> set (ascii_lowercase @ '' '') \<and> hd kw \<noteq> CHR ''k'' \<and> hd kw \<noteq> CHR ''i''"
    using assms by (cases kw) (auto simp: small_letters_def)
  have empty: "occurs_ignoring_case kw (c # cs)" if "kw = []"
    using that by (simp add: ascii_lower_def)
  show ?case
  proof (cases "startswith (c # cs) KELVIN_SIGN")
    case True
    with "2.prems" have "startswith (CHR ''k'' # lower (drop 2 cs)) kw \<or> str_in kw (lower (drop 2 cs))"
      by simp
    then show ?thesis
    proof
      assume "startswith (CHR ''k'' # lower (drop 2 cs)) kw"
      with head have "kw = []" by (cases kw) (auto simp: startswith_Cons)
      then show ?thesis by (rule empty)
    next
      assume "str_in kw (lower (drop 2 cs))"
      with True "2.IH"(1) have "occurs_ignoring_case kw (drop 2 cs)" by simp
      then have "occurs_ignoring_case kw cs" by (rule occurs_ignoring_case_drop)
      then show ?thesis by simp
    qed
  next
    case nk: False
    show ?thesis
    proof (cases "startswith (c # cs) CAPITAL_I_WITH_DOT")
      case True
      with nk "2.prems" have
        "startswith (CHR ''i'' # CHR 0xCC # CHR 0x87 # lower (drop 1 cs)) kw
         \<or> startswith (CHR 0xCC # CHR 0x87 # lower (drop 1 cs)) kw
         \<or> startswith (CHR 0x87 # lower (drop 1 cs)) kw
         \<or> str_in kw (lower (drop 1 cs))"
        by (simp add: COMBINING_DOT_def)
      then consider "kw = []" | "str_in kw (lower (drop 1 cs))"
        using head by (cases kw) (auto simp: startswith_Cons ascii_lowercase_def)
      then show ?thesis
      proof cases
        case 1
        then show ?thesis by (rule empty)
      next
        case 2
        with nk True "2.IH"(2) have "occurs_ignoring_case kw (drop 1 cs)" by simp
        then have "occurs_ignoring_case kw cs" by (rule occurs_ignoring_case_drop)
        then show ?thesis by simp
      qed
    next
      case False
      with nk "2.prems" have "startswith (lower (c # cs)) kw \<or> str_in kw (lower cs)"
        by simp
      then show ?thesis
      proof
        assume "startswith (lower (c # cs)) kw"
        with assms(2,3) have "ascii_lower (take (length kw) (c # cs)) = kw"
          by (intro startswith_lower_window)
        with assms(1) show ?thesis by (simp add: small_letters_fixed)
      next
        assume "str_in kw (lower cs)"
        with nk False "2.IH"(3) show ?thesis by simp
      qed
    qed
  qed
qed

lemma lower_plain:
  "\<not> str_in KELVIN_SIGN s \<Longrightarrow> \<not> str_in CAPITAL_I_WITH_DOT s \<Longrightarrow> lower s = ascii_lower s"
proof (induction s)
  case Nil
  show ?case by (simp add: ascii_lower_def)
next
  case (Cons c cs)
  then have "\<not> startswith (c # cs) KELVIN_SIGN" "\<not> startswith (c # cs) CAPITAL_I_WITH_DOT"
    "\<not> str_in KELVIN_SIGN cs" "\<not> str_in CAPITAL_I_WITH_DOT cs"
    by simp_all
  with Cons.IH show ?case by (simp add: ascii_lower_def)
qed

lemma str_in_positions:
  "str_in needle hay \<longleftrightarrow> (\<exists>i \<le> length hay. take (length needle) (drop i hay) = needle)"
proof
  assume "str_in needle hay"
  then obtain pre post where h: "hay = pre @ needle @ post" unfolding str_in_iff by blast
  then have "length pre \<le> length hay \<and> take (length needle) (drop (length pre) hay) = needle"
    by simp
  then show "\<exists>i \<le> length hay. take (length needle) (drop i hay) = needle" by blast
next
  assume "\<exists>i \<le> length hay. take (length needle) (drop i hay) = needle"
  then obtain i where i: "take (length needle) (drop i hay) = needle" by blast
  have "hay = take i hay @ take (length needle) (drop i hay) @ drop (length needle) (drop i hay)"
    by (metis append_take_drop_id)
  with i have "hay = take i hay @ needle @ drop (length needle) (drop i hay)" by simp
  then show "str_in needle hay" unfolding str_in_iff by blast
qed

lemma keyword_occurs_iff: "keyword_occurs kw s \<longleftrightarrow> str_in kw (lower s)"
proof -
  have "set [0..<length (lower s) + 1] = {i. i \<le> length (lower s)}" by auto
  then show ?thesis
    unfolding keyword_occurs_def str_in_positions list_ex_iff by blast
qed

lemma small_letters_phrase: "small_letters ''remember my clothing preferences''"
  by (simp add: small_letters_def ascii_lowercase_def)

lemma small_letters_keywords:
  "small_letters ''prefer''" "small_letters ''style''"
  "small_letters ''casual''" "small_letters ''formal''"
  by (simp_all add: small_letters_def ascii_lowercase_def)

lemma str_in_lower_keyword:
  assumes "small_letters kw" and "CHR ''k'' \<notin> set kw" and "CHR ''i'' \<notin> set kw"
  shows "str_in kw (lower s) \<longleftrightarrow> occurs_ignoring_case kw s"
  using assms occurs_imp_str_in_lower str_in_lower_imp_occurs by blast

lemma occurs_ignoring_case_nonempty: "occurs_ignoring_case kw s \<Longrightarrow> kw \<noteq> [] \<Longrightarrow> s \<noteq> []"
  by (cases s) auto

subsection \<open>Decimal numbers and keys\<close>

lemma of_char_digit_char: "d < 10 \<Longrightarrow> (of_char (digit_char d) :: nat) = 48 + d"
proof -
  assume "d < 10"
  then have "d \<in> {0, 1, 2, 3, 4, 5, 6, 7, 8, 9}" by auto
  then show ?thesis by (auto simp: digit_char_def)
qed

lemma digit_char_inj: "d < 10 \<Longrightarrow> e < 10 \<Longrightarrow> digit_char d = digit_char e \<Longrightarrow> d = e"
  by (metis of_char_digit_char add_left_cancel)

lemma str_nat_nonempty: "str_nat n \<noteq> []"
  by (subst str_nat.simps) simp

lemma last_str_nat: "last (str_nat n) = digit_char (n mod 10)"
  by (subst str_nat.simps) simp

lemma butlast_str_nat: "butlast (str_nat n) = (if n < 10 then [] else str_nat (n div 10))"
  by (subst str_nat.simps) simp

lemma str_nat_inj: "str_nat n = str_nat m \<Longrightarrow> n = m"
proof (induction n arbitrary: m rule: less_induct)
  case (less n)
  from less.prems have "digit_char (n mod 10) = digit_char (m mod 10)"
    by (metis last_str_nat)
  then have mod_eq: "n mod 10 = m mod 10"
    by (intro digit_char_inj) simp_all
  from less.prems have bl: "butlast (str_nat n) = butlast (str_nat m)" by simp
  show ?case
  proof (cases "n < 10")
    case True
    with bl have "m < 10"
      using str_nat_nonempty [of "m div 10"] by (auto simp: butlast_str_nat split: if_splits)
    with True mod_eq show ?thesis by simp
  next
    case False
    with bl have m10: "\<not> m < 10"
      using str_nat_nonempty [of "n div 10"] by (auto simp: butlast_str_nat split: if_splits)
    with False bl have "str_nat (n div 10) = str_nat (m div 10)" by (simp add: butlast_str_nat)
    moreover from False have "n div 10 < n" by simp
    ultimately have "n div 10 = m div 10" by (rule less.IH [rotated])
    with mod_eq show ?thesis by (metis div_mult_mod_eq)
  qed
qed

lemma pref_key_inj: "pref_key n = pref_key m \<longleftrightarrow> n = m"
  by (auto simp: pref_key_def dest: str_nat_inj)

lemma startswith_pref_key: "startswith (pref_key n) ''pref_''"
  by (simp add: startswith_def pref_key_def)

lemma not_startswith_pref_key: "\<not> startswith key ''pref_'' \<Longrightarrow> key \<noteq> pref_key n"
  using startswith_pref_key by blast

subsection \<open>Mappings\<close>

lemma dict_get_setitem: "dict_get (dict_setitem k v d) k' = (if k' = k then Some v else dict_get d k')"
  by (simp add: dict_get_def dict_setitem_def update_conv')

lemma dict_setitem_new: "k \<notin> set (dict_keys d) \<Longrightarrow> dict_setitem k v d = d @ [(k, v)]"
  unfolding dict_setitem_def dict_keys_def
  by (induction d) auto

lemma length_dict_setitem:
  "length (dict_setitem k v d) = (if k \<in> set (dict_keys d) then length d else length d + 1)"
  unfolding dict_setitem_def dict_keys_def
  by (induction d) auto

lemma dict_keys_setitem:
  "dict_keys (dict_setitem k v d) = (if k \<in> set (dict_keys d) then dict_keys d else dict_keys d @ [k])"
  unfolding dict_setitem_def dict_keys_def by (simp add: update_keys)

lemma distinct_dict_setitem: "distinct (dict_keys d) \<Longrightarrow> distinct (dict_keys (dict_setitem k v d))"
  unfolding dict_setitem_def dict_keys_def by (rule distinct_update)

lemma dict_get_in_values: "dict_get d k = Some v \<Longrightarrow> v \<in> set (dict_values d)"
  unfolding dict_get_def dict_values_def by (metis map_of_SomeD set_zip_rightD zip_map_fst_snd)

lemma dict_get_None_iff: "dict_get d k = None \<longleftrightarrow> k \<notin> set (dict_keys d)"
  unfolding dict_get_def dict_keys_def by (simp add: map_of_eq_None_iff)

lemma dict_update_Nil [simp]: "dict_update d [] = d"
  by (simp add: dict_update_def)

lemma dict_update_Cons [simp]: "dict_update d ((k, v) # other) = dict_update (dict_setitem k v d) other"
  by (simp add: dict_update_def)

lemma dict_update_snoc: "dict_update d (other @ [(k, v)]) = dict_setitem k v (dict_update d other)"
  by (simp add: dict_update_def)

lemma dict_get_update_other:
  "k \<notin> set (dict_keys other) \<Longrightarrow> dict_get (dict_update d other) k = dict_get d k"
proof (induction other arbitrary: d)
  case Nil
  show ?case by simp
next
  case (Cons p other)
  obtain k' v' where p: "p = (k', v')" by (cases p)
  with Cons.prems have "k \<noteq> k'" "k \<notin> set (dict_keys other)" by (auto simp: dict_keys_def)
  with Cons.IH [of "dict_setitem k' v' d"] p show ?case by (simp add: dict_get_setitem)
qed

lemma dict_get_update_in:
  "distinct (dict_keys other) \<Longrightarrow> (k, v) \<in> set other \<Longrightarrow> dict_get (dict_update d other) k = Some v"
proof (induction other arbitrary: d)
  case Nil
  then show ?case by simp
next
  case (Cons p other)
  obtain k' v' where p: "p = (k', v')" by (cases p)
  from Cons.prems p have dist: "distinct (dict_keys other)" and notin: "k' \<notin> set (dict_keys other)"
    by (auto simp: dict_keys_def)
  show ?case
  proof (cases "(k, v) = (k', v')")
    case True
    with notin have "dict_get (dict_update (dict_setitem k' v' d) other) k = dict_get (dict_setitem k' v' d) k"
      by (intro dict_get_update_other) simp
    with True p show ?thesis by (simp add: dict_get_setitem)
  next
    case False
    with Cons.prems p have "(k, v) \<in> set other" by auto
    with Cons.IH [OF dist, of "dict_setitem k' v' d"] p show ?thesis by simp
  qed
qed

lemma dict_update_append_new:
  "distinct (dict_keys other) \<Longrightarrow> set (dict_keys other) \<inter> set (dict_keys d) = {} \<Longrightarrow>
   dict_update d other = d @ other"
proof (induction other arbitrary: d)
  case Nil
  show ?case by simp
next
  case (Cons p other)
  obtain k v where p: "p = (k, v)" by (cases p)
  from Cons.prems p have k: "k \<notin> set (dict_keys d)" "k \<notin> set (dict_keys other)"
    and dist: "distinct (dict_keys other)" and disj: "set (dict_keys other) \<inter> set (dict_keys d) = {}"
    by (auto simp: dict_keys_def)
  from k have set_eq: "dict_setitem k v d = d @ [(k, v)]" by (simp add: dict_setitem_new)
  from k disj have "set (dict_keys other) \<inter> set (dict_keys (d @ [(k, v)])) = {}"
    by (auto simp: dict_keys_def)
  with Cons.IH [OF dist, of "d @ [(k, v)]"] have "dict_update (d @ [(k, v)]) other = (d @ [(k, v)]) @ other"
    by simp
  with p set_eq show ?case by simp
qed

subsection \<open>Numbered facts\<close>

lemma length_numbered [simp]: "length (numbered facts) = length facts"
  by (simp add: numbered_def)

lemma numbered_Nil [simp]: "numbered [] = []"
  by (simp add: numbered_def)

lemma numbered_snoc: "numbered (facts @ [t]) = numbered facts @ [(pref_key (length facts + 1), t)]"
  by (simp add: numbered_def nth_append)

lemma nth_numbered: "i < length facts \<Longrightarrow> numbered facts ! i = (pref_key (i + 1), facts ! i)"
  by (simp add: numbered_def)

lemma dict_keys_numbered: "dict_keys (numbered facts) = map (\<lambda>i. pref_key (i + 1)) [0..<length facts]"
  by (simp add: numbered_def dict_keys_def comp_def)

lemma pref_key_notin_numbered: "length facts < n \<Longrightarrow> pref_key n \<notin> set (dict_keys (numbered facts))"
  by (auto simp: dict_keys_numbered pref_key_inj)

lemma distinct_numbered: "distinct (dict_keys (numbered facts))"
  by (simp add: dict_keys_numbered distinct_map inj_on_def pref_key_inj)

lemma dict_get_numbered:
  "i < length facts \<Longrightarrow> dict_get (numbered facts) (pref_key (i + 1)) = Some (facts ! i)"
proof -
  assume i: "i < length facts"
  then have "(pref_key (i + 1), facts ! i) \<in> set (numbered facts)"
    by (metis nth_numbered length_numbered nth_mem)
  moreover have "distinct (map fst (numbered facts))"
    using distinct_numbered [of facts] by (simp add: dict_keys_def)
  ultimately show ?thesis by (simp add: dict_get_def)
qed

section \<open>The local store\<close>

lemma load_preferences_from_file_empty:
  "load_preferences_from_file Absent = Inr []"
  "load_preferences_from_file (Present (Inl IOError)) = Inr []"
  "load_preferences_from_file (Present (Inl JSONDecodeError)) = Inr []"
  by (simp_all add: load_preferences_from_file_def)

lemma init_empty_store:
  assumes "init use_arg available credentials mkdir service uid w = Inr m"
    and "backing_file w = Absent"
  shows "preferences m = [] \<and> preferences_loaded_from m = ''local_file''"
  using assms
  by (auto simp: init_def load_preferences_from_file_def Let_def
      split: option.splits if_splits)

text \<open>
  Claim C5. A backing file whose bytes are not UTF-8 makes \<open>json.load\<close> raise
  \<open>UnicodeDecodeError\<close>, which \<open>_load_preferences_from_file\<close> does not catch: the load
  raises, and so does the constructor.
\<close>
theorem load_raises_on_undecodable_file:
  "load_preferences_from_file (Present (Inl UnicodeDecodeError)) = Inl UnicodeDecodeError
   \<and> init u a c None sv uid \<lparr>backing_file = Present (Inl UnicodeDecodeError), generate_calls = gs, pending_tasks = ts\<rparr> = Inl UnicodeDecodeError"
  by (simp add: load_preferences_from_file_def init_def)

text \<open>
  Claim C6. For every mapping stored in the backing file, of any size, loading returns
  that mapping, and saving what was loaded leaves the file holding the same mapping,
  whether the write is carried out or refused when the file is opened; a later load
  returns the original mapping. Saving what was loaded twice is saving it once, whatever
  the file held.
\<close>
theorem save_load_roundtrip:
  "load_preferences_from_file (Present (Inr d)) = Inr d
   \<and> resave Written (Present (Inr d)) = Present (Inr d)
   \<and> resave OpenRefused (Present (Inr d)) = Present (Inr d)
   \<and> load_preferences_from_file (resave Written (Present (Inr d))) = Inr d
   \<and> resave Written (resave Written f) = resave Written f"
proof -
  have "resave Written (resave Written f) = resave Written f"
  proof (cases "load_preferences_from_file f")
    case (Inl e)
    then show ?thesis by (simp add: resave_def)
  next
    case (Inr d')
    then show ?thesis
      by (simp add: resave_def save_preferences_to_file_def load_preferences_from_file_def)
  qed
  then show ?thesis
    by (simp add: load_preferences_from_file_def resave_def save_preferences_to_file_def)
qed

theorem save_load_roundtrip_witness:
  "resave Written (Present (Inr [(''style'', ''casual''), (''pref_2'', ''prefers Celsius'')]))
       = Present (Inr [(''style'', ''casual''), (''pref_2'', ''prefers Celsius'')])
   \<and> load_preferences_from_file
        (resave Written (Present (Inr [(''style'', ''casual''), (''pref_2'', ''prefers Celsius'')])))
       = Inr [(''style'', ''casual''), (''pref_2'', ''prefers Celsius'')]
   \<and> resave Written (resave Written Absent) = resave Written Absent"
  using save_load_roundtrip [of "[(''style'', ''casual''), (''pref_2'', ''prefers Celsius'')]" Absent]
  by simp

section \<open>Adding and clearing preferences\<close>

lemma add_preference_preferences:
  "preferences (fst (snd (add_preference io lp r key val (m, w))))
   = dict_setitem (if startswith key ''pref_'' then pref_key (length (preferences m) + 1) else key)
       val (preferences m)"
  by (simp add: add_preference_def Let_def split: loop_state.splits prod.splits)

lemma add_preference_async_preferences:
  "preferences (fst (snd (add_preference_async io r key val (m, w))))
   = dict_setitem (if startswith key ''pref_'' then pref_key (length (preferences m) + 1) else key)
       val (preferences m)"
  by (simp add: add_preference_async_def Let_def split: prod.splits)

lemma exec_AddPreference_preferences:
  "preferences (fst (exec (AddPreference io lp r key val) mw))
   = dict_setitem
       (if startswith key ''pref_'' then pref_key (length (preferences (fst mw)) + 1) else key)
       val (preferences (fst mw))"
  using add_preference_preferences [of io lp r key val "fst mw" "snd mw"] by simp

text \<open>
  A key that does not start with \<open>pref_\<close> is used as given, and adding it again replaces
  its value and adds no entry.
\<close>
lemma add_preference_explicit_key:
  assumes "\<not> startswith key ''pref_''"
  shows "preferences (fst (exec (AddPreference io lp r key val) (m, w)))
        = dict_setitem key val (preferences m)"
    and "dict_get (preferences (fst (exec (AddPreference io lp r key val) (m, w)))) key = Some val"
    and "dict_get (preferences (fst (run [AddPreference io lp r key val, AddPreference io' lp' r' key val'] (m, w)))) key
            = Some val'"
    and "dict_keys (preferences (fst (run [AddPreference io lp r key val, AddPreference io' lp' r' key val'] (m, w))))
            = dict_keys (preferences (fst (exec (AddPreference io lp r key val) (m, w))))"
proof -
  let ?d1 = "dict_setitem key val (preferences m)"
  let ?m2 = "fst (run [AddPreference io lp r key val, AddPreference io' lp' r' key val'] (m, w))"
  from assms show p1: "preferences (fst (exec (AddPreference io lp r key val) (m, w))) = ?d1"
    using exec_AddPreference_preferences [of io lp r key val "(m, w)"] by simp
  then show "dict_get (preferences (fst (exec (AddPreference io lp r key val) (m, w)))) key = Some val"
    by (simp add: dict_get_setitem)
  from assms have p2: "preferences ?m2 = dict_setitem key val' ?d1"
    by (simp add: run_def exec_AddPreference_preferences del: exec.simps)
  then show "dict_get (preferences ?m2) key = Some val'"
    by (simp add: dict_get_setitem)
  have "key \<in> set (dict_keys ?d1)" by (simp add: dict_keys_setitem)
  then have "dict_keys (dict_setitem key val' ?d1) = dict_keys ?d1"
    using dict_keys_setitem [of key val' ?d1] by simp
  with p1 p2 show "dict_keys (preferences ?m2)
      = dict_keys (preferences (fst (exec (AddPreference io lp r key val) (m, w))))"
    by (simp del: exec.simps)
qed

text \<open>
  A key that starts with \<open>pref_\<close> is replaced by \<open>pref_N\<close>, where \<open>N\<close> is the number of
  entries in the in-memory store plus one. When the store holds neither that key nor the
  next one, two such adds put their two values under these two keys and every entry of
  the store keeps its value.
\<close>
lemma add_preference_generated_keys:
  assumes "startswith k1 ''pref_''" and "startswith k2 ''pref_''"
    and "pref_key (length (preferences m) + 1) \<notin> set (dict_keys (preferences m))"
    and "pref_key (length (preferences m) + 2) \<notin> set (dict_keys (preferences m))"
  shows "preferences (fst (run [AddPreference io lp r k1 v1, AddPreference io' lp' r' k2 v2] (m, w)))
    = preferences m @ [(pref_key (length (preferences m) + 1), v1),
                       (pref_key (length (preferences m) + 2), v2)]"
proof -
  let ?n = "length (preferences m)"
  let ?d1 = "dict_setitem (pref_key (?n + 1)) v1 (preferences m)"
  from assms(3) have d1: "?d1 = preferences m @ [(pref_key (?n + 1), v1)]"
    by (simp add: dict_setitem_new)
  then have len1: "length ?d1 = ?n + 1" by simp
  from assms(4) have "pref_key (?n + 2) \<notin> set (dict_keys ?d1)"
    by (simp add: dict_keys_setitem pref_key_inj)
  then have "dict_setitem (pref_key (?n + 2)) v2 ?d1 = ?d1 @ [(pref_key (?n + 2), v2)]"
    by (rule dict_setitem_new)
  moreover from assms(1,2) have
    "preferences (fst (run [AddPreference io lp r k1 v1, AddPreference io' lp' r' k2 v2] (m, w)))
     = dict_setitem (pref_key (?n + 2)) v2 ?d1"
    using len1 by (simp add: run_def exec_AddPreference_preferences del: exec.simps)
  ultimately show ?thesis using d1 by simp
qed

text \<open>
  Claim C2 fails in the code. The claim takes the number in a generated key from a counter
  that only grows, so that two adds with the key \<open>pref_\<close> make two new keys, and the
  comment on the line that computes the key says that it generates a unique key. The
  code keeps no counter: the number is the number of entries plus one, and the key it
  makes may be in the store already. The constructor loads the store with the single
  entry \<open>pref_2\<close> from a backing file that holds it. Two adds with the key \<open>pref_\<close> then
  both write \<open>pref_2\<close>: one key is left, and neither the stored value nor the first
  added value is in the value list. In the store with the single entry \<open>pref_3\<close> the
  first add makes \<open>pref_2\<close> and the second replaces the value stored under \<open>pref_3\<close>.
  Nor does the number only grow: from an empty store an add generates \<open>pref_1\<close>, and
  after a clear the next add generates \<open>pref_1\<close> again.
\<close>
theorem add_preference_key_collision:
  "init False True True None None ''default_user'' (file_world [(''pref_2'', ''x'')])
   = Inr (local_manager [(''pref_2'', ''x'')])
   \<and> preferences
     (fst (run [AddPreference Written NoLoop GenerateOk ''pref_'' ''v1'',
                AddPreference Written NoLoop GenerateOk ''pref_'' ''v2'']
            (local_manager [(''pref_2'', ''x'')], file_world [(''pref_2'', ''x'')])))
   = [(''pref_2'', ''v2'')]
   \<and> get_preference_list
     (fst (run [AddPreference Written NoLoop GenerateOk ''pref_'' ''v1'',
                AddPreference Written NoLoop GenerateOk ''pref_'' ''v2'']
            (local_manager [(''pref_2'', ''x'')], file_world [(''pref_2'', ''x'')])))
   = [''v2'']
   \<and> preferences
     (fst (run [AddPreference Written NoLoop GenerateOk ''pref_'' ''v1'',
                AddPreference Written NoLoop GenerateOk ''pref_'' ''v2'']
            (local_manager [(''pref_3'', ''x'')], file_world [(''pref_3'', ''x'')])))
   = [(''pref_3'', ''v2''), (''pref_2'', ''v1'')]
   \<and> dict_keys (preferences
     (fst (run [AddPreference Written NoLoop GenerateOk ''pref_'' ''v1'']
            (local_manager [], file_world []))))
   = [''pref_1'']
   \<and> dict_keys (preferences
     (fst (run [AddPreference Written NoLoop GenerateOk ''pref_'' ''v1'',
                ClearPreferences Written,
                AddPreference Written NoLoop GenerateOk ''pref_'' ''v2'']
            (local_manager [], file_world []))))
   = [''pref_1'']"
  by code_simp

lemma clear_preferences_result:
  "clear_preferences io (m, w)
   = (m\<lparr>preferences := []\<rparr>, w\<lparr>backing_file := save_preferences_to_file io [] (backing_file w)\<rparr>)"
  by (simp add: clear_preferences_def Let_def)

text \<open>
  Claim C8. \<open>clear_preferences\<close> leaves the in-memory set empty and touches neither the
  calls received by the remote memory nor the scheduled tasks; when the write is carried
  out the backing file holds the empty mapping. From an empty store, adding
  \<open>temp_preference\<close> with value \<open>prefers Celsius\<close> makes the value list that one value,
  and clearing makes the value list empty and the file load as the empty mapping.
\<close>
theorem clear_preferences_empties:
  "preferences (fst (clear_preferences io (m, w))) = []
   \<and> get_preference_list (fst (clear_preferences io (m, w))) = []
   \<and> generate_calls (snd (clear_preferences io (m, w))) = generate_calls w
   \<and> pending_tasks (snd (clear_preferences io (m, w))) = pending_tasks w
   \<and> backing_file (snd (clear_preferences Written (m, w))) = Present (Inr [])
   \<and> load_preferences_from_file (backing_file (snd (clear_preferences Written (m, w)))) = Inr []
   \<and> (let s1 = exec (AddPreference io' lp r ''temp_preference'' ''prefers Celsius'')
                  (m\<lparr>preferences := []\<rparr>, w);
           s2 = exec (ClearPreferences Written) s1
       in get_preference_list (fst s1) = [''prefers Celsius'']
          \<and> get_preference_list (fst s2) = []
          \<and> load_preferences_from_file (backing_file (snd s2)) = Inr [])"
proof -
  have cleared: "preferences (fst (clear_preferences io (m, w))) = []"
    "generate_calls (snd (clear_preferences io (m, w))) = generate_calls w"
    "pending_tasks (snd (clear_preferences io (m, w))) = pending_tasks w"
    "backing_file (snd (clear_preferences Written (m, w))) = Present (Inr [])"
    by (simp_all add: clear_preferences_result save_preferences_to_file_def)
  let ?s1 = "exec (AddPreference io' lp r ''temp_preference'' ''prefers Celsius'')
      (m\<lparr>preferences := []\<rparr>, w)"
  have "\<not> startswith ''temp_preference'' ''pref_''" by (simp add: startswith_def)
  then have added: "preferences (fst ?s1) = [(''temp_preference'', ''prefers Celsius'')]"
    using exec_AddPreference_preferences
      [of io' lp r "''temp_preference''" "''prefers Celsius''" "(m\<lparr>preferences := []\<rparr>, w)"]
    by (simp add: dict_setitem_def)
  have after: "exec (ClearPreferences Written) ?s1
      = ((fst ?s1)\<lparr>preferences := []\<rparr>, (snd ?s1)\<lparr>backing_file := Present (Inr [])\<rparr>)"
    using clear_preferences_result [of Written "fst ?s1" "snd ?s1"]
    by (simp add: save_preferences_to_file_def del: exec.simps(1))
  from cleared added after show ?thesis
    by (simp add: Let_def get_preference_list_def dict_values_def load_preferences_from_file_def
        del: exec.simps)
qed

theorem clear_preferences_empties_witness:
  "get_preference_list
     (fst (exec (AddPreference Written LoopIdle GenerateOk ''temp_preference'' ''prefers Celsius'')
        (example_manager\<lparr>preferences := []\<rparr>, example_world)))
   = [''prefers Celsius'']
   \<and> get_preference_list (fst (clear_preferences Written (example_manager, example_world))) = []
   \<and> generate_calls (snd (clear_preferences Written (example_manager, example_world))) = []
   \<and> backing_file (snd (clear_preferences Written (example_manager, example_world))) = Present (Inr [])"
  using clear_preferences_empties [of Written example_manager example_world Written LoopIdle GenerateOk]
  by (simp add: Let_def example_world_def)

section \<open>Fact extraction\<close>

lemma looks_like_preference_iff: "looks_like_preference t \<longleftrightarrow> mentions_keyword t"
  unfolding looks_like_preference_def mentions_keyword_def
  by (auto simp: str_in_lower_keyword small_letters_keywords dest: occurs_ignoring_case_nonempty)

lemma extract_preferences_numbered:
  "readable_or_skipped rs \<Longrightarrow>
   extract_preferences rs (numbered acc) = Inr (numbered (acc @ accepted_facts rs))"
proof (induction rs arbitrary: acc)
  case Nil
  show ?case by simp
next
  case (Cons r rs)
  from Cons.prems have rest: "readable_or_skipped rs" by (simp add: readable_or_skipped_def)
  show ?case
  proof (cases r)
    case (Memory ft)
    show ?thesis
    proof (cases ft)
      case None
      with Memory Cons.IH [OF rest, of acc] show ?thesis by simp
    next
      case (Some t)
      show ?thesis
      proof (cases "mentions_keyword t")
        case True
        have "dict_setitem (pref_key (length acc + 1)) t (numbered acc) = numbered (acc @ [t])"
          by (simp add: dict_setitem_new pref_key_notin_numbered numbered_snoc)
        with True Memory Some Cons.IH [OF rest, of "acc @ [t]"] show ?thesis
          by (simp add: looks_like_preference_iff)
      next
        case False
        with Memory Some Cons.IH [OF rest, of acc] show ?thesis
          by (simp add: looks_like_preference_iff)
      qed
    qed
  next
    case (Unreadable e)
    with Cons.prems have "e = AttributeError \<or> e = TypeError" by (simp add: readable_or_skipped_def)
    with Unreadable Cons.IH [OF rest, of acc] show ?thesis by auto
  qed
qed

lemma extract_preferences_accepted:
  "readable_or_skipped rs \<Longrightarrow> extract_preferences rs [] = Inr (numbered (accepted_facts rs))"
  using extract_preferences_numbered [of rs "[]"] by simp

text \<open>
  Claim C7. A retrieved fact passes the test of \<open>load_from_memory_bank\<close> exactly when its
  text contains one of \<open>prefer\<close>, \<open>style\<close>, \<open>casual\<close>, \<open>formal\<close> in any letter case.
  When every result can be read or skipped, the loop ends with the mapping that gives the
  \<open>i\<close>-th accepted fact, in retrieval order, the key \<open>pref_i\<close>: the key is
  \<open>pref_{count+1}\<close> for the \<open>count\<close> of facts accepted before it in this pass.
\<close>
theorem fact_extraction:
  "(looks_like_preference t \<longleftrightarrow> mentions_keyword t)
   \<and> (readable_or_skipped rs \<longrightarrow>
        extract_preferences rs [] = Inr (numbered (accepted_facts rs))
        \<and> retrieve_preferences (Retrieved rs None) = Inr (numbered (accepted_facts rs)))
   \<and> (\<forall>i < length (accepted_facts rs).
        numbered (accepted_facts rs) ! i = (pref_key (i + 1), accepted_facts rs ! i)
        \<and> pref_key (i + 1) = ''pref_'' @ str_nat (i + 1))"
  by (simp add: looks_like_preference_iff extract_preferences_accepted nth_numbered
      retrieve_preferences_def pref_key_def)

theorem fact_extraction_witness:
  "readable_or_skipped [Memory (Some ''User PREFERS wool''), Unreadable AttributeError,
       Memory None, Memory (Some ''lives in Oslo''), Memory (Some ''Smart-Casual at work'')]
   \<and> extract_preferences [Memory (Some ''User PREFERS wool''), Unreadable AttributeError,
       Memory None, Memory (Some ''lives in Oslo''), Memory (Some ''Smart-Casual at work'')] []
     = Inr [(''pref_1'', ''User PREFERS wool''), (''pref_2'', ''Smart-Casual at work'')]
   \<and> \<not> looks_like_preference ''lives in Oslo''"
proof -
  let ?rs = "[Memory (Some ''User PREFERS wool''), Unreadable AttributeError,
       Memory None, Memory (Some ''lives in Oslo''), Memory (Some ''Smart-Casual at work'')]"
  have h: "readable_or_skipped ?rs" by code_simp
  have n: "numbered (accepted_facts ?rs)
      = [(''pref_1'', ''User PREFERS wool''), (''pref_2'', ''Smart-Casual at work'')]"
    by code_simp
  have k: "\<not> mentions_keyword ''lives in Oslo''" by code_simp
  from fact_extraction [of "''lives in Oslo''" ?rs] h n k show ?thesis by metis
qed

section \<open>Syncing with the remote memory\<close>

lemma initialize_memory_bank_retrieved:
  assumes "use_vertex_ai m" "memory_service m" "retrieve_preferences rt = Inr loaded"
  shows "initialize_memory_bank rt io (m, w) =
    (if loaded \<noteq> []
     then (None,
           m\<lparr>preferences := dict_update (preferences m) loaded,
             preferences_loaded_from := ''vertex_ai_memory_bank''\<rparr>,
           w\<lparr>backing_file :=
               save_preferences_to_file io (dict_update (preferences m) loaded) (backing_file w)\<rparr>)
     else (None, m\<lparr>preferences_loaded_from := ''local_file''\<rparr>, w))"
  using assms by (simp add: initialize_memory_bank_def load_from_memory_bank_def Let_def)

lemma initialize_memory_bank_failed:
  assumes "use_vertex_ai m" "memory_service m" "retrieve_preferences rt = Inl e"
  shows "initialize_memory_bank rt io (m, w) =
    (if is_Exception e then (None, m\<lparr>preferences_loaded_from := ''local_file''\<rparr>, w)
     else (Some e, m, w))"
  using assms by (simp add: initialize_memory_bank_def load_from_memory_bank_def Let_def)

lemma initialize_memory_bank_disabled:
  assumes "\<not> use_vertex_ai m \<or> \<not> memory_service m"
  shows "initialize_memory_bank rt io (m, w) = (None, m, w)"
  using assms by (auto simp add: initialize_memory_bank_def Let_def)

lemma retrieve_preferences_failures:
  "retrieve_preferences (RetrieveRaises e) = Inl e"
  "readable_or_skipped rs \<Longrightarrow> retrieve_preferences (Retrieved rs (Some e)) = Inl e"
  by (simp_all add: retrieve_preferences_def extract_preferences_accepted)

text \<open>
  Claim C4. With the remote memory in use, a retrieval that fails with an error (raised
  when the client is created, by \<open>retrieve\<close>, by the iteration or inside the loop)
  makes \<open>initialize_memory_bank\<close> return normally with the attribution \<open>local_file\<close>
  and with the mapping and the world as they were. A retrieval that accepts no fact gives
  the same; the attribution becomes \<open>vertex_ai_memory_bank\<close> when the retrieval returned
  at least one accepted fact, and then these facts have been merged and saved. With the
  remote memory not in use the call returns at once and changes nothing.
\<close>
theorem sync_remote_failure:
  "(use_vertex_ai m \<and> memory_service m \<and> retrieve_preferences rt = Inl e \<and> is_Exception e \<longrightarrow>
      initialize_memory_bank rt io (m, w)
      = (None, m\<lparr>preferences_loaded_from := ''local_file''\<rparr>, w))
   \<and> retrieve_preferences (RetrieveRaises e) = Inl e
   \<and> (readable_or_skipped rs \<longrightarrow> retrieve_preferences (Retrieved rs (Some e)) = Inl e)
   \<and> (use_vertex_ai m \<and> memory_service m \<and> retrieve_preferences rt = Inr [] \<longrightarrow>
      initialize_memory_bank rt io (m, w)
      = (None, m\<lparr>preferences_loaded_from := ''local_file''\<rparr>, w))
   \<and> (use_vertex_ai m \<and> memory_service m \<and> retrieve_preferences rt = Inr loaded \<and> loaded \<noteq> [] \<longrightarrow>
      initialize_memory_bank rt io (m, w)
      = (None,
         m\<lparr>preferences := dict_update (preferences m) loaded,
           preferences_loaded_from := ''vertex_ai_memory_bank''\<rparr>,
         w\<lparr>backing_file :=
             save_preferences_to_file io (dict_update (preferences m) loaded) (backing_file w)\<rparr>))
   \<and> (\<not> (use_vertex_ai m \<and> memory_service m) \<longrightarrow>
      initialize_memory_bank rt io (m, w) = (None, m, w))"
  by (simp add: initialize_memory_bank_retrieved initialize_memory_bank_failed
      initialize_memory_bank_disabled retrieve_preferences_failures)

theorem sync_remote_failure_witness:
  "initialize_memory_bank (Retrieved [Memory (Some ''I prefer red'')] (Some RuntimeError)) Written
     (example_manager, example_world)
   = (None, example_manager, example_world)
   \<and> initialize_memory_bank (RetrieveRaises IOError) Written (example_manager, example_world)
   = (None, example_manager, example_world)
   \<and> initialize_memory_bank (Retrieved [Memory (Some ''I prefer red'')] None) Written
       (example_manager, example_world)
     = (None,
        example_manager\<lparr>preferences := [(''style'', ''casual''), (''pref_1'', ''I prefer red'')],
          preferences_loaded_from := ''vertex_ai_memory_bank''\<rparr>,
        example_world\<lparr>backing_file :=
          Present (Inr [(''style'', ''casual''), (''pref_1'', ''I prefer red'')])\<rparr>)"
proof -
  have u: "use_vertex_ai example_manager \<and> memory_service example_manager"
    by (simp add: example_manager_def)
  have f: "retrieve_preferences (Retrieved [Memory (Some ''I prefer red'')] (Some RuntimeError))
      = Inl RuntimeError \<and> is_Exception RuntimeError"
    by code_simp
  have f2: "retrieve_preferences (RetrieveRaises IOError) = Inl IOError \<and> is_Exception IOError"
    by code_simp
  have l: "example_manager\<lparr>preferences_loaded_from := ''local_file''\<rparr> = example_manager"
    by (simp add: example_manager_def)
  have g: "initialize_memory_bank (Retrieved [Memory (Some ''I prefer red'')] None) Written
       (example_manager, example_world)
     = (None,
        example_manager\<lparr>preferences := [(''style'', ''casual''), (''pref_1'', ''I prefer red'')],
          preferences_loaded_from := ''vertex_ai_memory_bank''\<rparr>,
        example_world\<lparr>backing_file :=
          Present (Inr [(''style'', ''casual''), (''pref_1'', ''I prefer red'')])\<rparr>)"
    by code_simp
  from sync_remote_failure [of example_manager _ RuntimeError Written example_world] u f l
  have a: "initialize_memory_bank (Retrieved [Memory (Some ''I prefer red'')] (Some RuntimeError)) Written
     (example_manager, example_world) = (None, example_manager, example_world)"
    by metis
  from sync_remote_failure [of example_manager _ IOError Written example_world] u f2 l
  have b: "initialize_memory_bank (RetrieveRaises IOError) Written (example_manager, example_world)
     = (None, example_manager, example_world)"
    by metis
  from a b g show ?thesis by simp
qed

lemma sync_preferences:
  assumes "use_vertex_ai m" "memory_service m" "readable_or_skipped rs"
  shows "preferences (fst (snd (initialize_memory_bank (Retrieved rs None) io (m, w))))
    = dict_update (preferences m) (numbered (accepted_facts rs))"
proof -
  from assms(3) have r: "retrieve_preferences (Retrieved rs None) = Inr (numbered (accepted_facts rs))"
    by (simp add: retrieve_preferences_def extract_preferences_accepted)
  show ?thesis
    by (simp add: initialize_memory_bank_retrieved [OF assms(1,2) r])
qed

text \<open>
  Claim C1, as amended. A sync whose results can all be read or skipped keeps every entry
  whose key is not one of the synthetic keys \<open>pref_1\<close>, ..., \<open>pref_n\<close> of the \<open>n\<close>
  accepted facts, and afterwards \<open>pref_i\<close> holds the \<open>i\<close>-th accepted fact. When no
  local key is one of these synthetic keys the accepted facts are appended as new entries
  behind the old ones; so the local entry \<open>style: casual\<close> and one retrieved fact that
  contains \<open>prefer\<close> give the two entries \<open>style\<close> and \<open>pref_1\<close>.
\<close>
theorem sync_keeps_other_keys:
  assumes "use_vertex_ai m" and "memory_service m" and "readable_or_skipped rs"
  shows
    "(\<forall>k. k \<notin> set (dict_keys (numbered (accepted_facts rs))) \<longrightarrow>
        dict_get (preferences (fst (snd (initialize_memory_bank (Retrieved rs None) io (m, w))))) k
        = dict_get (preferences m) k)
     \<and> (\<forall>i < length (accepted_facts rs).
          dict_get (preferences (fst (snd (initialize_memory_bank (Retrieved rs None) io (m, w)))))
            (pref_key (i + 1))
          = Some (accepted_facts rs ! i))
     \<and> (set (dict_keys (numbered (accepted_facts rs))) \<inter> set (dict_keys (preferences m)) = {} \<longrightarrow>
          preferences (fst (snd (initialize_memory_bank (Retrieved rs None) io (m, w))))
          = preferences m @ numbered (accepted_facts rs))
     \<and> (preferences m = [(''style'', ''casual'')] \<and> rs = [Memory (Some t)]
          \<and> occurs_ignoring_case ''prefer'' t \<longrightarrow>
          preferences (fst (snd (initialize_memory_bank (Retrieved rs None) io (m, w))))
          = [(''style'', ''casual''), (''pref_1'', t)])"
proof (intro conjI allI impI)
  note sp = sync_preferences [OF assms, of io w]
  fix k assume "k \<notin> set (dict_keys (numbered (accepted_facts rs)))"
  then show "dict_get (preferences (fst (snd (initialize_memory_bank (Retrieved rs None) io (m, w))))) k
        = dict_get (preferences m) k"
    by (simp add: sp dict_get_update_other)
next
  note sp = sync_preferences [OF assms, of io w]
  fix i assume i: "i < length (accepted_facts rs)"
  then have "(pref_key (i + 1), accepted_facts rs ! i) \<in> set (numbered (accepted_facts rs))"
    by (metis nth_numbered length_numbered nth_mem)
  then show "dict_get (preferences (fst (snd (initialize_memory_bank (Retrieved rs None) io (m, w)))))
            (pref_key (i + 1)) = Some (accepted_facts rs ! i)"
    by (simp add: sp dict_get_update_in distinct_numbered)
next
  note sp = sync_preferences [OF assms, of io w]
  assume "set (dict_keys (numbered (accepted_facts rs))) \<inter> set (dict_keys (preferences m)) = {}"
  then show "preferences (fst (snd (initialize_memory_bank (Retrieved rs None) io (m, w))))
          = preferences m @ numbered (accepted_facts rs)"
    by (simp add: sp dict_update_append_new distinct_numbered)
next
  note sp = sync_preferences [OF assms, of io w]
  assume a: "preferences m = [(''style'', ''casual'')] \<and> rs = [Memory (Some t)]
          \<and> occurs_ignoring_case ''prefer'' t"
  then have "mentions_keyword t" by (simp add: mentions_keyword_def)
  with a have "numbered (accepted_facts rs) = [(pref_key 1, t)]" by (simp add: numbered_def)
  moreover have "pref_key 1 = ''pref_1''" by code_simp
  ultimately have num: "numbered (accepted_facts rs) = [(''pref_1'', t)]" by simp
  have "preferences (fst (snd (initialize_memory_bank (Retrieved rs None) io (m, w))))
      = dict_update (preferences m) (numbered (accepted_facts rs))"
    by (rule sp)
  also have "\<dots> = dict_update [(''style'', ''casual'')] [(''pref_1'', t)]"
    using a num by simp
  also have "\<dots> = [(''style'', ''casual''), (''pref_1'', t)]"
    by (simp add: dict_setitem_def)
  finally show "preferences (fst (snd (initialize_memory_bank (Retrieved rs None) io (m, w))))
          = [(''style'', ''casual''), (''pref_1'', t)]" .
qed

theorem sync_keeps_other_keys_witness:
  "use_vertex_ai example_manager \<and> memory_service example_manager
   \<and> readable_or_skipped [Memory (Some ''User prefers wool'')]
   \<and> preferences example_manager = [(''style'', ''casual'')]
   \<and> occurs_ignoring_case ''prefer'' ''User prefers wool''
   \<and> preferences (fst (snd (initialize_memory_bank (Retrieved [Memory (Some ''User prefers wool'')] None)
          Written (example_manager, example_world))))
     = [(''style'', ''casual''), (''pref_1'', ''User prefers wool'')]"
proof -
  have u: "use_vertex_ai example_manager" and s: "memory_service example_manager"
    and p: "preferences example_manager = [(''style'', ''casual'')]"
    by (simp_all add: example_manager_def)
  have r: "readable_or_skipped [Memory (Some ''User prefers wool'')]" by code_simp
  have o: "occurs_ignoring_case ''prefer'' ''User prefers wool''" by code_simp
  from sync_keeps_other_keys [OF u s r, of Written example_world "''User prefers wool''"] p o
  have "preferences (fst (snd (initialize_memory_bank (Retrieved [Memory (Some ''User prefers wool'')] None)
          Written (example_manager, example_world))))
     = [(''style'', ''casual''), (''pref_1'', ''User prefers wool'')]"
    by blast
  with u s p r o show ?thesis by blast
qed

text \<open>
  Claim C1 as stated fails: a local entry under \<open>pref_1\<close> is overwritten by the first
  accepted fact of a sync.
\<close>
theorem sync_overwrites_synthetic_key:
  "dict_get (preferences (example_manager\<lparr>preferences := [(''pref_1'', ''likes blue'')]\<rparr>)) ''pref_1''
     = Some ''likes blue''
   \<and> dict_get
       (preferences (fst (snd (initialize_memory_bank (Retrieved [Memory (Some ''I prefer red'')] None)
          Written (example_manager\<lparr>preferences := [(''pref_1'', ''likes blue'')]\<rparr>, example_world)))))
       ''pref_1''
     = Some ''I prefer red''
   \<and> get_preference_list
       (fst (snd (initialize_memory_bank (Retrieved [Memory (Some ''I prefer red'')] None)
          Written (example_manager\<lparr>preferences := [(''pref_1'', ''likes blue'')]\<rparr>, example_world))))
     = [''I prefer red'']"
  by code_simp

section \<open>Auto-generated keys in the runs of the system\<close>

text \<open>
  Two adds with a \<open>pref_\<close> key make two new keys when the store holds neither of the two
  keys that they generate. That is so in every store that the operations of the manager
  build from an empty one: the keys stay distinct, and a key \<open>pref_n\<close> in the store has
  \<open>n\<close> at most the number of entries. A backing file written by other means breaks it.
\<close>

lemma auto_keys_bounded_fresh:
  "auto_keys_bounded d \<Longrightarrow> pref_key (length d + 1) \<notin> set (dict_keys d)"
  unfolding auto_keys_bounded_def by fastforce

lemma auto_keys_bounded_empty: "auto_keys_bounded []"
  by (simp add: auto_keys_bounded_def dict_keys_def)

lemma auto_keys_bounded_setitem_auto:
  assumes "auto_keys_bounded d"
  shows "auto_keys_bounded (dict_setitem (pref_key (length d + 1)) v d)"
proof -
  from assms have fresh: "pref_key (length d + 1) \<notin> set (dict_keys d)"
    by (rule auto_keys_bounded_fresh)
  then have eq: "dict_setitem (pref_key (length d + 1)) v d = d @ [(pref_key (length d + 1), v)]"
    by (rule dict_setitem_new)
  from assms fresh show ?thesis
    unfolding eq auto_keys_bounded_def
    by (auto simp: dict_keys_def pref_key_inj le_Suc_eq)
qed

lemma auto_keys_bounded_setitem_explicit:
  assumes "auto_keys_bounded d" and "\<not> startswith key ''pref_''"
  shows "auto_keys_bounded (dict_setitem key v d)"
proof -
  from assms(1) have dist: "distinct (dict_keys (dict_setitem key v d))"
    unfolding auto_keys_bounded_def by (simp add: distinct_dict_setitem)
  have len: "length d \<le> length (dict_setitem key v d)"
    by (simp add: length_dict_setitem)
  have "n \<le> length (dict_setitem key v d)" if "pref_key n \<in> set (dict_keys (dict_setitem key v d))" for n
  proof -
    from that assms(2) have "pref_key n \<in> set (dict_keys d)"
      using not_startswith_pref_key [of key n]
      by (auto simp: dict_keys_setitem split: if_splits)
    with assms(1) have "n \<le> length d" unfolding auto_keys_bounded_def by blast
    with len show ?thesis by simp
  qed
  with dist show ?thesis unfolding auto_keys_bounded_def by blast
qed

lemma auto_keys_bounded_add:
  assumes "auto_keys_bounded d"
  shows "auto_keys_bounded
    (dict_setitem (if startswith key ''pref_'' then pref_key (length d + 1) else key) v d)"
proof (cases "startswith key ''pref_''")
  case True
  then show ?thesis using auto_keys_bounded_setitem_auto [OF assms, of v] by simp
next
  case False
  then show ?thesis using auto_keys_bounded_setitem_explicit [OF assms, of key v] by simp
qed

lemma auto_keys_bounded_update_numbered:
  "auto_keys_bounded d \<Longrightarrow>
   auto_keys_bounded (dict_update d (numbered facts))
   \<and> length facts \<le> length (dict_update d (numbered facts))"
proof (induction facts rule: rev_induct)
  case Nil
  then show ?case by simp
next
  case (snoc t facts)
  let ?d = "dict_update d (numbered facts)"
  let ?k = "pref_key (length facts + 1)"
  from snoc have inv: "auto_keys_bounded ?d" and len: "length facts \<le> length ?d" by simp_all
  have upd: "dict_update d (numbered (facts @ [t])) = dict_setitem ?k t ?d"
    by (simp add: numbered_snoc dict_update_snoc)
  show ?case
  proof (cases "?k \<in> set (dict_keys ?d)")
    case True
    with inv have big: "length facts + 1 \<le> length ?d" unfolding auto_keys_bounded_def by blast
    from True have keys: "dict_keys (dict_setitem ?k t ?d) = dict_keys ?d"
      and l: "length (dict_setitem ?k t ?d) = length ?d"
      by (simp_all add: dict_keys_setitem length_dict_setitem)
    from inv keys l have "auto_keys_bounded (dict_setitem ?k t ?d)"
      unfolding auto_keys_bounded_def by simp
    with big l upd show ?thesis by simp
  next
    case False
    then have eq: "dict_setitem ?k t ?d = ?d @ [(?k, t)]" by (rule dict_setitem_new)
    from inv False len have "auto_keys_bounded (?d @ [(?k, t)])"
      unfolding auto_keys_bounded_def
      by (auto simp: dict_keys_def pref_key_inj le_Suc_eq)
    with len upd eq show ?thesis by simp
  qed
qed

lemma extract_preferences_is_numbered:
  "extract_preferences rs (numbered acc) = Inr loaded \<Longrightarrow> \<exists>facts. loaded = numbered facts"
proof (induction rs arbitrary: acc)
  case Nil
  then show ?case by auto
next
  case (Cons r rs)
  show ?case
  proof (cases r)
    case (Memory ft)
    show ?thesis
    proof (cases ft)
      case None
      with Memory Cons.prems Cons.IH [of acc] show ?thesis by simp
    next
      case (Some t)
      have "dict_setitem (pref_key (length acc + 1)) t (numbered acc) = numbered (acc @ [t])"
        by (simp add: dict_setitem_new pref_key_notin_numbered numbered_snoc)
      with Memory Some Cons.prems Cons.IH [of acc] Cons.IH [of "acc @ [t]"] show ?thesis
        by (simp split: if_splits)
    qed
  next
    case (Unreadable e)
    with Cons.prems Cons.IH [of acc] show ?thesis by (simp split: if_splits)
  qed
qed

lemma retrieve_preferences_is_numbered:
  assumes "retrieve_preferences rt = Inr loaded"
  shows "\<exists>facts. loaded = numbered facts"
proof (cases rt)
  case (RetrieveRaises e)
  with assms show ?thesis by (simp add: retrieve_preferences_def)
next
  case (Retrieved rs tail)
  with assms have "extract_preferences rs (numbered []) = Inr loaded"
    by (simp add: retrieve_preferences_def split: sum.splits option.splits)
  then show ?thesis by (rule extract_preferences_is_numbered)
qed

lemma initialize_memory_bank_preferences:
  "preferences (fst (snd (initialize_memory_bank rt io mw))) = preferences (fst mw)
   \<or> (\<exists>facts. preferences (fst (snd (initialize_memory_bank rt io mw)))
         = dict_update (preferences (fst mw)) (numbered facts))"
proof (cases "use_vertex_ai (fst mw) \<and> memory_service (fst mw)")
  case False
  then show ?thesis
    using initialize_memory_bank_disabled [of "fst mw" rt io "snd mw"] by auto
next
  case True
  show ?thesis
  proof (cases "retrieve_preferences rt")
    case (Inl e)
    with True initialize_memory_bank_failed [of "fst mw" rt e io "snd mw"] show ?thesis
      by (auto split: if_splits)
  next
    case (Inr loaded)
    then obtain facts where "loaded = numbered facts"
      using retrieve_preferences_is_numbered by blast
    with True Inr initialize_memory_bank_retrieved [of "fst mw" rt loaded io "snd mw"] show ?thesis
      by (auto split: if_splits)
  qed
qed

lemma exec_auto_keys_bounded:
  assumes "auto_keys_bounded (preferences (fst mw))"
  shows "auto_keys_bounded (preferences (fst (exec a mw)))"
proof (cases a)
  case (AddPreference io lp r key val)
  with add_preference_preferences [of io lp r key val "fst mw" "snd mw"]
    auto_keys_bounded_add [OF assms, of key val]
  show ?thesis by simp
next
  case (AddPreferenceAsync io r key val)
  with add_preference_async_preferences [of io r key val "fst mw" "snd mw"]
    auto_keys_bounded_add [OF assms, of key val]
  show ?thesis by simp
next
  case (RunTask r)
  with assms show ?thesis by (simp add: run_task_def Let_def split: list.splits prod.splits)
next
  case (SaveToMemoryBank r key val)
  with assms show ?thesis by simp
next
  case (PushPreference g uid val)
  with assms show ?thesis by simp
next
  case (InitializeMemoryBank rt io)
  with assms initialize_memory_bank_preferences [of rt io mw] show ?thesis
    by (auto simp: auto_keys_bounded_update_numbered)
next
  case (ClearPreferences io)
  then show ?thesis by (simp add: clear_preferences_def Let_def auto_keys_bounded_empty)
qed

lemma run_auto_keys_bounded:
  "auto_keys_bounded (preferences (fst mw)) \<Longrightarrow> auto_keys_bounded (preferences (fst (run acts mw)))"
proof (induction acts arbitrary: mw)
  case Nil
  then show ?case by (simp add: run_def)
next
  case (Cons a acts)
  from Cons.prems have "auto_keys_bounded (preferences (fst (exec a mw)))"
    by (rule exec_auto_keys_bounded)
  from Cons.IH [OF this] show ?case by (simp add: run_def)
qed

lemma run_from_empty_auto_key_fresh:
  assumes "preferences m = []"
  shows "pref_key (length (preferences (fst (run acts (m, w)))) + 1)
    \<notin> set (dict_keys (preferences (fst (run acts (m, w)))))"
proof -
  from assms have "auto_keys_bounded (preferences (fst (m, w)))"
    by (simp add: auto_keys_bounded_empty)
  then have "auto_keys_bounded (preferences (fst (run acts (m, w))))"
    by (rule run_auto_keys_bounded)
  then show ?thesis by (rule auto_keys_bounded_fresh)
qed

lemma auto_keys_bounded_above:
  "auto_keys_bounded d \<Longrightarrow> length d < n \<Longrightarrow> pref_key n \<notin> set (dict_keys d)"
  unfolding auto_keys_bounded_def by fastforce

lemma run_append: "run (acts @ acts') mw = run acts' (run acts mw)"
  by (simp add: run_def)

lemma run_from_empty_two_adds:
  assumes "preferences m = []" and "startswith k1 ''pref_''" and "startswith k2 ''pref_''"
  shows "preferences (fst (run (acts @ [AddPreference io lp r k1 v1, AddPreference io' lp' r' k2 v2]) (m, w)))
    = preferences (fst (run acts (m, w)))
      @ [(pref_key (length (preferences (fst (run acts (m, w)))) + 1), v1),
         (pref_key (length (preferences (fst (run acts (m, w)))) + 2), v2)]"
proof -
  obtain m' w' where r: "run acts (m, w) = (m', w')" by (cases "run acts (m, w)")
  from assms(1) have "auto_keys_bounded (preferences (fst (m, w)))"
    by (simp add: auto_keys_bounded_empty)
  then have "auto_keys_bounded (preferences (fst (run acts (m, w))))"
    by (rule run_auto_keys_bounded)
  with r have "auto_keys_bounded (preferences m')" by simp
  then have "pref_key (length (preferences m') + 1) \<notin> set (dict_keys (preferences m'))"
    and "pref_key (length (preferences m') + 2) \<notin> set (dict_keys (preferences m'))"
    by (simp_all add: auto_keys_bounded_above)
  from add_preference_generated_keys [OF assms(2,3) this, of io lp r v1 io' lp' r' v2 w']
  show ?thesis by (simp only: run_append r fst_conv)
qed

section \<open>Writes to the remote memory\<close>

lemma memory_call_inj: "memory_call uid v = memory_call uid' v' \<Longrightarrow> v = v'"
  by (simp add: memory_call_def)

lemma save_to_memory_bank_generic:
  "str_in ''remember my clothing preferences'' (lower v) \<Longrightarrow> save_to_memory_bank r m k v w = (None, w)"
  by (simp add: save_to_memory_bank_def)

lemma push_preference_generic:
  "str_in ''remember my clothing preferences'' (lower v) \<Longrightarrow> push_preference g uid v w = (None, w)"
  by (simp add: push_preference_def)

lemma save_to_memory_bank_calls:
  "c \<in> set (generate_calls (snd (save_to_memory_bank r m k v w))) \<Longrightarrow>
   c \<in> set (generate_calls w)
   \<or> (c = memory_call (user_id m) v \<and> \<not> str_in ''remember my clothing preferences'' (lower v))"
  by (auto simp: save_to_memory_bank_def Let_def split: if_splits remote_write.splits)

lemma push_preference_calls:
  "c \<in> set (generate_calls (snd (push_preference g uid v w))) \<Longrightarrow>
   c \<in> set (generate_calls w)
   \<or> (c = memory_call uid v \<and> \<not> str_in ''remember my clothing preferences'' (lower v))"
  by (auto simp: push_preference_def split: if_splits)

lemma add_preference_calls:
  assumes "c \<in> set (generate_calls (snd (snd (add_preference io lp r key val mw))))"
  shows "c \<in> set (generate_calls (snd mw))
   \<or> (\<exists>uid. c = memory_call uid val \<and> \<not> str_in ''remember my clothing preferences'' (lower val))"
proof -
  obtain m w where mw: "mw = (m, w)" by (cases mw)
  define pref_id where
    "pref_id = (if startswith key ''pref_'' then pref_key (length (preferences m) + 1) else key)"
  define m1 where "m1 = m\<lparr>preferences := dict_setitem pref_id val (preferences m)\<rparr>"
  define w1 where
    "w1 = w\<lparr>backing_file := save_preferences_to_file io (preferences m1) (backing_file w)\<rparr>"
  have gc1: "generate_calls w1 = generate_calls w" by (simp add: w1_def)
  show ?thesis
  proof (cases "use_vertex_ai m \<and> lp = LoopIdle")
    case True
    then have "snd (snd (add_preference io lp r key val mw))
        = snd (save_to_memory_bank r m1 pref_id val w1)"
      by (simp add: add_preference_def mw Let_def pref_id_def m1_def w1_def split: prod.splits)
    with assms save_to_memory_bank_calls [of c r m1 pref_id val w1] gc1 mw show ?thesis by auto
  next
    case False
    then have "generate_calls (snd (snd (add_preference io lp r key val mw))) = generate_calls w"
      by (auto simp: add_preference_def mw Let_def split: loop_state.splits)
    with assms mw show ?thesis by simp
  qed
qed

lemma add_preference_async_calls:
  assumes "c \<in> set (generate_calls (snd (snd (add_preference_async io r key val mw))))"
  shows "c \<in> set (generate_calls (snd mw))
   \<or> (\<exists>uid. c = memory_call uid val \<and> \<not> str_in ''remember my clothing preferences'' (lower val))"
proof -
  obtain m w where mw: "mw = (m, w)" by (cases mw)
  define pref_id where
    "pref_id = (if startswith key ''pref_'' then pref_key (length (preferences m) + 1) else key)"
  define m1 where "m1 = m\<lparr>preferences := dict_setitem pref_id val (preferences m)\<rparr>"
  define w1 where
    "w1 = w\<lparr>backing_file := save_preferences_to_file io (preferences m1) (backing_file w)\<rparr>"
  have gc1: "generate_calls w1 = generate_calls w" by (simp add: w1_def)
  show ?thesis
  proof (cases "use_vertex_ai m")
    case True
    then have "snd (snd (add_preference_async io r key val mw))
        = snd (save_to_memory_bank r m1 pref_id val w1)"
      by (simp add: add_preference_async_def mw Let_def pref_id_def m1_def w1_def split: prod.splits)
    with assms save_to_memory_bank_calls [of c r m1 pref_id val w1] gc1 mw show ?thesis by auto
  next
    case False
    then have "generate_calls (snd (snd (add_preference_async io r key val mw))) = generate_calls w"
      by (auto simp: add_preference_async_def mw Let_def)
    with assms mw show ?thesis by simp
  qed
qed

lemma run_task_calls:
  assumes "c \<in> set (generate_calls (snd (snd (run_task r mw))))"
  shows "c \<in> set (generate_calls (snd mw))
   \<or> (\<exists>uid v. c = memory_call uid v \<and> \<not> str_in ''remember my clothing preferences'' (lower v))"
proof (cases "pending_tasks (snd mw)")
  case Nil
  with assms show ?thesis by (simp add: run_task_def Let_def)
next
  case (Cons t ts)
  obtain k v where t: "t = (k, v)" by (cases t)
  from Cons t have "snd (snd (run_task r mw))
      = snd (save_to_memory_bank r (fst mw) k v ((snd mw)\<lparr>pending_tasks := ts\<rparr>))"
    by (simp add: run_task_def Let_def split: prod.splits)
  with assms save_to_memory_bank_calls [of c r "fst mw" k v "(snd mw)\<lparr>pending_tasks := ts\<rparr>"]
  show ?thesis by auto
qed

lemma initialize_memory_bank_calls:
  "generate_calls (snd (snd (initialize_memory_bank rt io mw))) = generate_calls (snd mw)"
  by (auto simp: initialize_memory_bank_def load_from_memory_bank_def Let_def
      split: sum.splits prod.splits if_splits)

lemma clear_preferences_calls:
  "generate_calls (snd (clear_preferences io mw)) = generate_calls (snd mw)"
  by (simp add: clear_preferences_def Let_def)

lemma exec_calls:
  assumes "c \<in> set (generate_calls (snd (exec a mw)))"
  shows "c \<in> set (generate_calls (snd mw))
   \<or> (\<exists>uid v. c = memory_call uid v \<and> \<not> str_in ''remember my clothing preferences'' (lower v))"
proof (cases a)
  case (AddPreference io lp r key val)
  with assms add_preference_calls [of c io lp r key val mw] show ?thesis by auto
next
  case (AddPreferenceAsync io r key val)
  with assms add_preference_async_calls [of c io r key val mw] show ?thesis by auto
next
  case (RunTask r)
  with assms run_task_calls [of c r mw] show ?thesis by auto
next
  case (SaveToMemoryBank r key val)
  with assms save_to_memory_bank_calls [of c r "fst mw" key val "snd mw"] show ?thesis by auto
next
  case (PushPreference g uid val)
  with assms push_preference_calls [of c g uid val "snd mw"] show ?thesis by auto
next
  case (InitializeMemoryBank rt io)
  with assms show ?thesis by (simp add: initialize_memory_bank_calls)
next
  case (ClearPreferences io)
  with assms show ?thesis by (simp add: clear_preferences_calls)
qed

lemma run_calls:
  "c \<in> set (generate_calls (snd (run acts mw))) \<Longrightarrow>
   c \<in> set (generate_calls (snd mw))
   \<or> (\<exists>uid v. c = memory_call uid v \<and> \<not> str_in ''remember my clothing preferences'' (lower v))"
proof (induction acts arbitrary: mw)
  case Nil
  then show ?case by (simp add: run_def)
next
  case (Cons a acts)
  from Cons.prems have "c \<in> set (generate_calls (snd (run acts (exec a mw))))"
    by (simp add: run_def)
  from Cons.IH [OF this] exec_calls [of c a mw] show ?case by blast
qed

text \<open>
  Claim C3. For a preference value that contains \<open>remember my clothing preferences\<close> in any
  letter case, \<open>_save_to_memory_bank\<close> and \<open>push_preference\<close> return without calling
  \<open>generate\<close>, whatever the remote side would have done. Hence in no run of the system
  (adding in either way, the loop running scheduled tasks, the resync script's direct
  calls, the push script, syncs and clears, in any order) does the remote memory ever
  receive the call made for such a value, unless it had received it before the run.
\<close>
theorem generic_preference_never_dispatched:
  assumes "occurs_ignoring_case ''remember my clothing preferences'' v"
  shows "save_to_memory_bank r m k v w = (None, w)
    \<and> push_preference g uid v w = (None, w)
    \<and> (memory_call uid' v \<notin> set (generate_calls w) \<longrightarrow>
         memory_call uid' v \<notin> set (generate_calls (snd (run acts (m, w)))))"
proof -
  from small_letters_phrase assms
  have g: "str_in ''remember my clothing preferences'' (lower v)"
    by (rule occurs_imp_str_in_lower)
  have "memory_call uid' v \<notin> set (generate_calls (snd (run acts (m, w))))"
    if "memory_call uid' v \<notin> set (generate_calls w)"
  proof
    assume "memory_call uid' v \<in> set (generate_calls (snd (run acts (m, w))))"
    from run_calls [OF this] that obtain uid2 v2 where
      "memory_call uid' v = memory_call uid2 v2"
      "\<not> str_in ''remember my clothing preferences'' (lower v2)"
      by auto
    with g show False by (auto dest: memory_call_inj)
  qed
  with g show ?thesis by (simp add: save_to_memory_bank_generic push_preference_generic)
qed

theorem generic_preference_never_dispatched_witness:
  "occurs_ignoring_case ''remember my clothing preferences'' ''Please REMEMBER my Clothing Preferences!''
   \<and> memory_call ''default_user'' ''Please REMEMBER my Clothing Preferences!''
       \<notin> set (generate_calls (snd (run
           [AddPreference Written LoopRunning GenerateOk ''pref_'' ''Please REMEMBER my Clothing Preferences!'',
            RunTask GenerateOk,
            AddPreferenceAsync Written GenerateOk ''note'' ''Please REMEMBER my Clothing Preferences!'',
            PushPreference None ''default_user'' ''Please REMEMBER my Clothing Preferences!'']
           (example_manager, example_world))))"
proof -
  have o: "occurs_ignoring_case ''remember my clothing preferences''
      ''Please REMEMBER my Clothing Preferences!''"
    by code_simp
  have e: "memory_call ''default_user'' ''Please REMEMBER my Clothing Preferences!''
      \<notin> set (generate_calls example_world)"
    by (simp add: example_world_def)
  from generic_preference_never_dispatched [OF o, of _ example_manager _ example_world _ _ "''default_user''"] e o
  show ?thesis by blast
qed

section \<open>The rules of the activity classification\<close>

lemma any_in_keyword_occurs:
  "any_in kws (lower s) \<longleftrightarrow> list_ex (\<lambda>kw. keyword_occurs kw s) kws"
  by (simp add: any_in_def keyword_occurs_iff)

lemma small_letters_activity_keywords: "list_all small_letters activity_keywords"
  by (simp add: activity_keywords_def small_letters_def ascii_lowercase_def)

lemma activity_keyword_small_letters: "kw \<in> set activity_keywords \<Longrightarrow> small_letters kw"
  using small_letters_activity_keywords by (simp add: list_all_iff)

lemma keyword_occurs_case_variant:
  "small_letters kw \<Longrightarrow> occurs_ignoring_case kw s \<Longrightarrow> keyword_occurs kw s"
  by (simp add: keyword_occurs_iff occurs_imp_str_in_lower)

lemma keyword_occurs_plain:
  assumes "small_letters kw"
    and "\<not> str_in KELVIN_SIGN s" and "\<not> str_in CAPITAL_I_WITH_DOT s"
  shows "keyword_occurs kw s \<longleftrightarrow> occurs_ignoring_case kw s"
proof -
  from assms(2,3) have "lower s = ascii_lower s" by (rule lower_plain)
  moreover from assms(1) have "ascii_lower kw = kw" by (rule small_letters_fixed)
  ultimately show ?thesis
    using str_in_ascii_lower_iff [of kw s] by (simp add: keyword_occurs_iff)
qed

lemma value_lower_field:
  "field \<noteq> Some PyNone \<Longrightarrow>
   value_lower (event_get field (Str [])) = Inr (lower (field_text field))"
  by (cases field; cases "the field")
    (simp_all add: value_lower_def event_get_def field_text_def)

lemma value_lower_None:
  "value_lower (event_get (Some PyNone) dflt) = Inl AttributeError"
  by (simp add: value_lower_def event_get_def)

lemma analyze_event_result:
  assumes "summary ev \<noteq> Some PyNone" and "location ev \<noteq> Some PyNone"
  shows "analyze_event ev
    = Inr \<lparr>title = event_get (summary ev) (Str ''Event''),
           start_time = event_get (start ev) (Str ''''),
           raw_location = event_get (location ev) (Str ''''),
           location_type =
             first_rule [([''park'', ''outdoor'', ''trail'', ''beach''], ''outdoor''),
                         ([''office'', ''workplace''], ''office''),
                         ([''home'', ''house''], ''home'')]
               ''indoor'' (field_text (location ev)),
           formality =
             first_rule [([''meeting'', ''presentation'', ''interview'', ''client''], ''formal''),
                         ([''work'', ''office'', ''business''], ''business_casual'')]
               ''casual'' (field_text (summary ev)),
           is_exercise =
             list_ex (\<lambda>kw. keyword_occurs kw (field_text (summary ev)))
               [''gym'', ''workout'', ''run'', ''exercise'', ''yoga'', ''fitness''],
           is_outdoor =
             (first_rule [([''park'', ''outdoor'', ''trail'', ''beach''], ''outdoor''),
                          ([''office'', ''workplace''], ''office''),
                          ([''home'', ''house''], ''home'')]
                ''indoor'' (field_text (location ev)) = ''outdoor''
              \<or> list_ex (\<lambda>kw. keyword_occurs kw (field_text (summary ev)))
                   [''outdoor'', ''outside'', ''park'', ''hike''])\<rparr>"
proof -
  note s = value_lower_field [OF assms(1)] and l = value_lower_field [OF assms(2)]
  show ?thesis
    unfolding analyze_event_def Let_def s l
    by (simp only: any_in_keyword_occurs first_rule.simps sum.case)
qed

lemma analyze_event_raises:
  assumes "summary ev = Some PyNone \<or> location ev = Some PyNone"
  shows "analyze_event ev = Inl AttributeError"
proof (cases "summary ev = Some PyNone")
  case True
  then show ?thesis by (simp add: analyze_event_def value_lower_None)
next
  case False
  with assms have l: "location ev = Some PyNone" by simp
  from False have "value_lower (event_get (summary ev) (Str ''''))
      = Inr (lower (field_text (summary ev)))"
    by (rule value_lower_field)
  with l show ?thesis by (simp add: analyze_event_def value_lower_None)
qed

lemma first_rule_location_labels:
  "first_rule [(ks1, ''outdoor''), (ks2, ''office''), (ks3, ''home'')] ''indoor'' s
   \<in> {''indoor'', ''outdoor'', ''office'', ''home''}"
  by simp

lemma first_rule_formality_labels:
  "first_rule [(ks1, ''formal''), (ks2, ''business_casual'')] ''casual'' s
   \<in> {''casual'', ''business_casual'', ''formal''}"
  by simp

text \<open>
  Claim C9. \<open>analyze_event\<close> is a function of the event alone. For an event whose summary
  and location, where the event has them, are texts, it returns a result: the location
  type is what the location rules give the location text, the first rule that matches
  winning and \<open>indoor\<close> standing when none does; the formality is what the formality
  rules give the summary, \<open>casual\<close> when none matches; \<open>is_exercise\<close> and \<open>is_outdoor\<close>
  are truth values decided by keyword tests on the summary (and the location type); a
  missing summary or location counts as the empty text. The location type is one of
  \<open>indoor\<close>, \<open>outdoor\<close>, \<open>office\<close>, \<open>home\<close> and the formality one of \<open>casual\<close>,
  \<open>business_casual\<close>, \<open>formal\<close>. An event that has \<open>None\<close> as its summary or location
  has no text to test, and the call raises \<open>AttributeError\<close>. Every test is the occurrence
  of a fixed keyword in the lower-cased text: a keyword that is in the text in any mix of
  capitals and small letters occurs, and in a text without the Kelvin sign and the capital
  I with dot above nothing else does.
\<close>
theorem analyze_event_classification:
  "(summary ev \<noteq> Some PyNone \<and> location ev \<noteq> Some PyNone \<longrightarrow>
      (\<exists>a. analyze_event ev = Inr a
         \<and> location_type a
           = first_rule [([''park'', ''outdoor'', ''trail'', ''beach''], ''outdoor''),
                         ([''office'', ''workplace''], ''office''),
                         ([''home'', ''house''], ''home'')]
               ''indoor'' (field_text (location ev))
         \<and> formality a
           = first_rule [([''meeting'', ''presentation'', ''interview'', ''client''], ''formal''),
                         ([''work'', ''office'', ''business''], ''business_casual'')]
               ''casual'' (field_text (summary ev))
         \<and> is_exercise a
           = list_ex (\<lambda>kw. keyword_occurs kw (field_text (summary ev)))
               [''gym'', ''workout'', ''run'', ''exercise'', ''yoga'', ''fitness'']
         \<and> is_outdoor a
           = (location_type a = ''outdoor''
              \<or> list_ex (\<lambda>kw. keyword_occurs kw (field_text (summary ev)))
                   [''outdoor'', ''outside'', ''park'', ''hike''])
         \<and> location_type a \<in> {''indoor'', ''outdoor'', ''office'', ''home''}
         \<and> formality a \<in> {''casual'', ''business_casual'', ''formal''}))
   \<and> (summary ev = Some PyNone \<or> location ev = Some PyNone \<longrightarrow>
        analyze_event ev = Inl AttributeError)
   \<and> (kw \<in> set activity_keywords \<and> occurs_ignoring_case kw s \<longrightarrow> keyword_occurs kw s)
   \<and> (kw \<in> set activity_keywords \<and> \<not> str_in KELVIN_SIGN s \<and> \<not> str_in CAPITAL_I_WITH_DOT s \<longrightarrow>
        (keyword_occurs kw s \<longleftrightarrow> occurs_ignoring_case kw s))"
proof (intro conjI impI)
  assume "summary ev \<noteq> Some PyNone \<and> location ev \<noteq> Some PyNone"
  then have r: "analyze_event ev
    = Inr \<lparr>title = event_get (summary ev) (Str ''Event''),
           start_time = event_get (start ev) (Str ''''),
           raw_location = event_get (location ev) (Str ''''),
           location_type =
             first_rule [([''park'', ''outdoor'', ''trail'', ''beach''], ''outdoor''),
                         ([''office'', ''workplace''], ''office''),
                         ([''home'', ''house''], ''home'')]
               ''indoor'' (field_text (location ev)),
           formality =
             first_rule [([''meeting'', ''presentation'', ''interview'', ''client''], ''formal''),
                         ([''work'', ''office'', ''business''], ''business_casual'')]
               ''casual'' (field_text (summary ev)),
           is_exercise =
             list_ex (\<lambda>kw. keyword_occurs kw (field_text (summary ev)))
               [''gym'', ''workout'', ''run'', ''exercise'', ''yoga'', ''fitness''],
           is_outdoor =
             (first_rule [([''park'', ''outdoor'', ''trail'', ''beach''], ''outdoor''),
                          ([''office'', ''workplace''], ''office''),
                          ([''home'', ''house''], ''home'')]
                ''indoor'' (field_text (location ev)) = ''outdoor''
              \<or> list_ex (\<lambda>kw. keyword_occurs kw (field_text (summary ev)))
                   [''outdoor'', ''outside'', ''park'', ''hike''])\<rparr>"
    (is "_ = Inr ?a")
    using analyze_event_result [of ev] by simp
  have "location_type ?a \<in> {''indoor'', ''outdoor'', ''office'', ''home''}"
    unfolding activity.simps by (rule first_rule_location_labels)
  moreover have "formality ?a \<in> {''casual'', ''business_casual'', ''formal''}"
    unfolding activity.simps by (rule first_rule_formality_labels)
  ultimately show "\<exists>a. analyze_event ev = Inr a
         \<and> location_type a
           = first_rule [([''park'', ''outdoor'', ''trail'', ''beach''], ''outdoor''),
                         ([''office'', ''workplace''], ''office''),
                         ([''home'', ''house''], ''home'')]
               ''indoor'' (field_text (location ev))
         \<and> formality a
           = first_rule [([''meeting'', ''presentation'', ''interview'', ''client''], ''formal''),
                         ([''work'', ''office'', ''business''], ''business_casual'')]
               ''casual'' (field_text (summary ev))
         \<and> is_exercise a
           = list_ex (\<lambda>kw. keyword_occurs kw (field_text (summary ev)))
               [''gym'', ''workout'', ''run'', ''exercise'', ''yoga'', ''fitness'']
         \<and> is_outdoor a
           = (location_type a = ''outdoor''
              \<or> list_ex (\<lambda>kw. keyword_occurs kw (field_text (summary ev)))
                   [''outdoor'', ''outside'', ''park'', ''hike''])
         \<and> location_type a \<in> {''indoor'', ''outdoor'', ''office'', ''home''}
         \<and> formality a \<in> {''casual'', ''business_casual'', ''formal''}"
    unfolding r by (intro exI [of _ ?a] conjI) (simp_all only: activity.simps)
next
  assume "summary ev = Some PyNone \<or> location ev = Some PyNone"
  then show "analyze_event ev = Inl AttributeError" by (rule analyze_event_raises)
next
  assume "kw \<in> set activity_keywords \<and> occurs_ignoring_case kw s"
  then show "keyword_occurs kw s"
    using activity_keyword_small_letters keyword_occurs_case_variant by blast
next
  assume a: "kw \<in> set activity_keywords \<and> \<not> str_in KELVIN_SIGN s \<and> \<not> str_in CAPITAL_I_WITH_DOT s"
  then have "small_letters kw" using activity_keyword_small_letters by blast
  with a show "keyword_occurs kw s \<longleftrightarrow> occurs_ignoring_case kw s"
    using keyword_occurs_plain by blast
qed

theorem analyze_event_classification_witness:
  "(\<exists>a. analyze_event \<lparr>summary = Some (Str ''Client Meeting''), location = Some (Str ''Office''),
                        start = None\<rparr> = Inr a
      \<and> location_type a = ''office'' \<and> formality a = ''formal''
      \<and> is_exercise a = False \<and> is_outdoor a = False)
   \<and> analyze_event \<lparr>summary = Some PyNone, location = Some (Str ''Office''), start = None\<rparr>
     = Inl AttributeError
   \<and> ''park'' \<in> set activity_keywords
   \<and> occurs_ignoring_case ''park'' ''Central PARK''
   \<and> keyword_occurs ''park'' ''Central PARK''"
proof -
  let ?ev = "\<lparr>summary = Some (Str ''Client Meeting''), location = Some (Str ''Office''),
      start = None\<rparr>"
  let ?none = "\<lparr>summary = Some PyNone, location = Some (Str ''Office''), start = None\<rparr>"
  have t: "summary ?ev \<noteq> Some PyNone \<and> location ?ev \<noteq> Some PyNone" by simp
  have l: "first_rule [([''park'', ''outdoor'', ''trail'', ''beach''], ''outdoor''),
                   ([''office'', ''workplace''], ''office''),
                   ([''home'', ''house''], ''home'')]
         ''indoor'' (field_text (location ?ev)) = ''office''"
    by code_simp
  have f: "first_rule [([''meeting'', ''presentation'', ''interview'', ''client''], ''formal''),
                   ([''work'', ''office'', ''business''], ''business_casual'')]
         ''casual'' (field_text (summary ?ev)) = ''formal''"
    by code_simp
  have e: "list_ex (\<lambda>kw. keyword_occurs kw (field_text (summary ?ev)))
         [''gym'', ''workout'', ''run'', ''exercise'', ''yoga'', ''fitness''] = False"
    by code_simp
  have ou: "list_ex (\<lambda>kw. keyword_occurs kw (field_text (summary ?ev)))
             [''outdoor'', ''outside'', ''park'', ''hike''] = False"
    by code_simp
  have ne: "''office'' \<noteq> ''outdoor''" by simp
  have n: "summary ?none = Some PyNone \<or> location ?none = Some PyNone" by simp
  have k: "''park'' \<in> set activity_keywords" by (simp add: activity_keywords_def)
  have o: "occurs_ignoring_case ''park'' ''Central PARK''" by code_simp
  have p: "\<not> str_in KELVIN_SIGN ''Central PARK'' \<and> \<not> str_in CAPITAL_I_WITH_DOT ''Central PARK''"
    by code_simp
  from analyze_event_classification [of ?ev "''park''" "''Central PARK''"]
    analyze_event_classification [of ?none "''park''" "''Central PARK''"]
    t l f e ou ne n k o p
  show ?thesis by metis
qed

text \<open>
  The Kelvin sign is no letter \<open>k\<close> in either case, yet its lower-case form is: a location
  that ends in \<open>Par\<close> and the Kelvin sign is classified as outdoors.
\<close>
lemma analyze_event_kelvin_sign:
  "\<not> occurs_ignoring_case ''park'' (''Central Par'' @ KELVIN_SIGN)
   \<and> keyword_occurs ''park'' (''Central Par'' @ KELVIN_SIGN)
   \<and> analyze_event \<lparr>summary = None, location = Some (Str (''Central Par'' @ KELVIN_SIGN)),
                     start = None\<rparr>
     = Inr \<lparr>title = Str ''Event'', start_time = Str '''',
            raw_location = Str (''Central Par'' @ KELVIN_SIGN), location_type = ''outdoor'',
            formality = ''casual'', is_exercise = False, is_outdoor = True\<rparr>"
  by code_simp

section \<open>The copy returned by get_all_preferences\<close>

lemma mutate_at_other:
  "a \<noteq> r \<Longrightarrow> dict_objects (mutate_at a mu s) ! r = dict_objects s ! r"
  by (simp add: mutate_at_def)

lemma mutate_at_disk: "disk (mutate_at a mu s) = disk s"
  by (simp add: mutate_at_def)

lemma fold_mutate_at_other:
  "a \<noteq> r \<Longrightarrow> dict_objects (fold (mutate_at a) mus s) ! r = dict_objects s ! r"
  by (induction mus arbitrary: s) (simp_all add: mutate_at_other)

lemma fold_mutate_at_disk: "disk (fold (mutate_at a) mus s) = disk s"
  by (induction mus arbitrary: s) (simp_all add: mutate_at_disk)

text \<open>
  Claim C10. \<open>get_all_preferences\<close> returns a new object with the entries of the
  manager's mapping. Whatever the caller then does to the returned object, the manager's
  own mapping, the value list read from it and the backing file stay as they were.
\<close>
theorem get_all_preferences_copy:
  assumes "self_preferences < length (dict_objects s)"
  shows "fst (get_all_preferences self_preferences s) \<noteq> self_preferences
    \<and> dict_objects (snd (get_all_preferences self_preferences s)) ! fst (get_all_preferences self_preferences s)
        = dict_objects s ! self_preferences
    \<and> dict_objects (fold (mutate_at (fst (get_all_preferences self_preferences s))) mus
          (snd (get_all_preferences self_preferences s))) ! self_preferences
        = dict_objects s ! self_preferences
    \<and> get_preference_list_at self_preferences
          (fold (mutate_at (fst (get_all_preferences self_preferences s))) mus
             (snd (get_all_preferences self_preferences s)))
        = get_preference_list_at self_preferences s
    \<and> disk (fold (mutate_at (fst (get_all_preferences self_preferences s))) mus
          (snd (get_all_preferences self_preferences s)))
        = disk s"
proof -
  let ?a = "fst (get_all_preferences self_preferences s)"
  let ?s1 = "snd (get_all_preferences self_preferences s)"
  have a: "?a = length (dict_objects s)"
    by (simp add: get_all_preferences_def dict_copy_def)
  with assms have ne: "?a \<noteq> self_preferences" by simp
  have s1: "dict_objects ?s1 = dict_objects s @ [dict_objects s ! self_preferences]"
    and d1: "disk ?s1 = disk s"
    by (simp_all add: get_all_preferences_def dict_copy_def)
  from s1 a have copy: "dict_objects ?s1 ! ?a = dict_objects s ! self_preferences"
    by simp
  from s1 assms have same: "dict_objects ?s1 ! self_preferences = dict_objects s ! self_preferences"
    by (simp add: nth_append)
  from ne same have kept: "dict_objects (fold (mutate_at ?a) mus ?s1) ! self_preferences
      = dict_objects s ! self_preferences"
    by (simp add: fold_mutate_at_other)
  from ne copy kept d1 show ?thesis
    by (simp add: get_preference_list_at_def fold_mutate_at_disk)
qed

theorem get_all_preferences_copy_witness:
  "(0::nat) < length (dict_objects \<lparr>dict_objects = [[(''style'', ''casual'')]], disk = Absent\<rparr>)
   \<and> get_all_preferences 0 \<lparr>dict_objects = [[(''style'', ''casual'')]], disk = Absent\<rparr>
       = (1, \<lparr>dict_objects = [[(''style'', ''casual'')], [(''style'', ''casual'')]], disk = Absent\<rparr>)
   \<and> fold (mutate_at 1) [SetItem ''style'' ''formal'', DelItem ''style'', SetItem ''k'' ''v'']
        \<lparr>dict_objects = [[(''style'', ''casual'')], [(''style'', ''casual'')]], disk = Absent\<rparr>
       = \<lparr>dict_objects = [[(''style'', ''casual'')], [(''k'', ''v'')]], disk = Absent\<rparr>
   \<and> get_preference_list_at 0
        (fold (mutate_at (fst (get_all_preferences 0 \<lparr>dict_objects = [[(''style'', ''casual'')]], disk = Absent\<rparr>)))
           [SetItem ''style'' ''formal'', DelItem ''style'', SetItem ''k'' ''v'']
           (snd (get_all_preferences 0 \<lparr>dict_objects = [[(''style'', ''casual'')]], disk = Absent\<rparr>)))
       = [''casual'']"
proof -
  let ?s = "\<lparr>dict_objects = [[(''style'', ''casual'')]], disk = Absent\<rparr>"
  have h: "(0::nat) < length (dict_objects ?s)" by simp
  have g: "get_all_preferences 0 ?s
       = (1, \<lparr>dict_objects = [[(''style'', ''casual'')], [(''style'', ''casual'')]], disk = Absent\<rparr>)"
    by (simp add: get_all_preferences_def dict_copy_def)
  have m: "fold (mutate_at 1) [SetItem ''style'' ''formal'', DelItem ''style'', SetItem ''k'' ''v'']
        \<lparr>dict_objects = [[(''style'', ''casual'')], [(''style'', ''casual'')]], disk = Absent\<rparr>
       = \<lparr>dict_objects = [[(''style'', ''casual'')], [(''k'', ''v'')]], disk = Absent\<rparr>"
    by (simp add: mutate_at_def dict_setitem_def)
  have l: "get_preference_list_at 0 ?s = [''casual'']"
    by (simp add: get_preference_list_at_def dict_values_def)
  from get_all_preferences_copy [OF h, of "[SetItem ''style'' ''formal'', DelItem ''style'', SetItem ''k'' ''v'']"]
    h g m l
  show ?thesis by simp
qed

end
